theory Spec2Isabelle
  imports Complex_Main "HOL-Library.Word"
begin

unbundle bit_operations_syntax

section \<open>Observable effects\<close>

text \<open>
  The lander interface of \<^verbatim>\<open>OwInterface.cpp\<close> acts on the outside world through
  the ROS log macros, the \<^verbatim>\<open>publish\<close> helper of \<^verbatim>\<open>subscriber.h\<close>, ROS topic
  publishers, action clients and the registered command status callback.  Each of these
  calls is recorded, in program order, as one entry of the \<open>events\<close> field of the state.
  A log entry keeps the format string of the source and its arguments.

  A \<^verbatim>\<open>double\<close> is modelled as a \<^typ>\<open>real\<close> (rounding and NaN are not represented) and a
  \<^verbatim>\<open>ros::Time\<close> as a \<^typ>\<open>real\<close> number of seconds.  An \<^verbatim>\<open>int\<close> command id is an
  \<^typ>\<open>int\<close>: the code only stores and compares ids.
\<close>

datatype severity = INFO | WARN | ERROR

datatype fmt_arg = S string | F real

datatype pub_value = B bool | D real

datatype goal =
    GuardedMoveGoal real real real real real real real
  | DigCircularGoal real real real real bool
  | DigLinearGoal real real real real real
  | DeliverGoal real real real
  | GrindGoal real real real real bool real
  | StowGoal int
  | UnstowGoal int

datatype event =
    ROS severity string "fmt_arg list"
  | Publish string pub_value
  | PublishOp string pub_value string
  | StatusCallback int bool
  | SendGoal string goal
  | TopicPublish string pub_value

record JointState =
  msg_name :: "string list"
  msg_position :: "real list"
  msg_velocity :: "real list"
  msg_effort :: "real list"

section \<open>Constants and catalogs\<close>

definition DegreeTolerance :: real where
  "DegreeTolerance = 0.2"

definition PanTiltTimeout :: real where
  "PanTiltTimeout = 5.0"

definition within_tolerance :: "real \<Rightarrow> real \<Rightarrow> real \<Rightarrow> bool" where
  "within_tolerance val1 val2 tolerance \<longleftrightarrow> \<bar>val1 - val2\<bar> \<le> tolerance"

abbreviation Op_GuardedMove :: string where "Op_GuardedMove \<equiv> ''Guarded_move''"
abbreviation Op_DigCircular :: string where "Op_DigCircular \<equiv> ''DigCircular''"
abbreviation Op_DigLinear :: string where "Op_DigLinear \<equiv> ''DigLinear''"
abbreviation Op_Deliver :: string where "Op_Deliver \<equiv> ''Deliver''"
abbreviation Op_PanAntenna :: string where "Op_PanAntenna \<equiv> ''PanAntenna''"
abbreviation Op_TiltAntenna :: string where "Op_TiltAntenna \<equiv> ''TiltAntenna''"
abbreviation Op_Grind :: string where "Op_Grind \<equiv> ''Grind''"
abbreviation Op_Stow :: string where "Op_Stow \<equiv> ''Stow''"
abbreviation Op_Unstow :: string where "Op_Unstow \<equiv> ''Unstow''"
abbreviation Op_TakePicture :: string where "Op_TakePicture \<equiv> ''TakePicture''"

definition LanderOpNames :: "string list" where
  "LanderOpNames =
     [Op_GuardedMove, Op_DigCircular, Op_DigLinear, Op_Deliver,
      Op_PanAntenna, Op_TiltAntenna, Op_Grind, Op_Stow, Op_Unstow, Op_TakePicture]"

definition IDLE_ID :: int where
  "IDLE_ID = - 1"

datatype Joint =
    shoulder_yaw | shoulder_pitch | proximal_pitch | distal_pitch | hand_yaw
  | scoop_yaw | antenna_pan | antenna_tilt | grinder

record JointProperties =
  rosName :: string
  plexilName :: string
  softTorqueLimit :: real
  hardTorqueLimit :: real

record JointTelemetry =
  jt_position :: real
  jt_velocity :: real
  jt_effort :: real

text \<open>The detached threads that run an action (\<^verbatim>\<open>thread action_thread (...)\<close>), with
  the arguments they were started with.\<close>

datatype action_thread =
    GuardedMoveAction real real real real real real real int
  | DigCircularAction real real real real bool int
  | DigLinearAction real real real real real int
  | DeliverAction real real real int
  | GrindAction real real real real bool real int
  | StowAction int
  | UnstowAction int

section \<open>State\<close>

text \<open>
  The file-level statics of \<^verbatim>\<open>OwInterface.cpp\<close> and the members of the singleton
  \<^verbatim>\<open>OwInterface\<close>.  An action client pointer is represented by whether it is non-null, a
  publisher pointer by the topic it advertises (\<open>None\<close> when null).  The fault
  tables \<^verbatim>\<open>systemErrors\<close>, \<^verbatim>\<open>armErrors\<close>, \<^verbatim>\<open>powerErrors\<close> and \<^verbatim>\<open>ptErrors\<close> are
  \<^verbatim>\<open>std::map\<close>s from a fault name to a pair of a bit value and the stored flag; their
  declaration and contents are not part of the sources at hand, so they are arbitrary
  association lists here, in iteration order.  \<open>threads\<close> holds the action threads that
  have been started and whose body has not run yet.  The battery statics, the result of
  the last guarded move and the subscriber pointers are left out: no operation, fault or
  joint state depends on them.
\<close>

record state =
  Running :: "string \<rightharpoonup> int"
  CommandStatusCallback :: bool
  JointsAtHardTorqueLimit :: "string set"
  JointsAtSoftTorqueLimit :: "string set"
  JointTelemetryMap :: "Joint \<rightharpoonup> JointTelemetry"
  systemErrors :: "(string \<times> 64 word \<times> bool) list"
  armErrors :: "(string \<times> 32 word \<times> bool) list"
  powerErrors :: "(string \<times> 32 word \<times> bool) list"
  ptErrors :: "(string \<times> 32 word \<times> bool) list"
  m_antennaTiltPublisher :: "string option"
  m_antennaPanPublisher :: "string option"
  m_leftImageTriggerPublisher :: "string option"
  m_guardedMoveClient :: bool
  m_unstowClient :: bool
  m_stowClient :: bool
  m_grindClient :: bool
  m_digCircularClient :: bool
  m_digLinearClient :: bool
  m_deliverClient :: bool
  m_currentPan :: real
  m_currentTilt :: real
  m_goalPan :: real
  m_goalTilt :: real
  m_panStart :: real
  m_tiltStart :: real
  threads :: "action_thread list"
  events :: "event list"

definition emit :: "event \<Rightarrow> state \<Rightarrow> state" where
  "emit e s = s\<lparr>events := events s @ [e]\<rparr>"

text \<open>
  The ways a call can fail to return: \<^verbatim>\<open>std::out_of_range\<close> from \<^verbatim>\<open>map::at\<close>, a call
  or a dereference through a null pointer, an index past the end of a vector, and
  \<^verbatim>\<open>std::terminate\<close>, which ends the process; \<open>Terminate\<close> carries the state the
  process was in.  A failure ends the run.
\<close>

datatype error = OutOfRange | NullPointer | IndexOutOfBounds | Terminate state

definition and_then :: "error + 'a \<Rightarrow> ('a \<Rightarrow> error + 'b) \<Rightarrow> error + 'b" where
  "and_then r f = (case r of Inl e \<Rightarrow> Inl e | Inr x \<Rightarrow> f x)"

text \<open>The state after static initialisation and the constructor, before
  \<^verbatim>\<open>initialize\<close>, for given fault tables.\<close>

definition initial_state ::
  "(string \<times> 64 word \<times> bool) list \<Rightarrow> (string \<times> 32 word \<times> bool) list \<Rightarrow>
   (string \<times> 32 word \<times> bool) list \<Rightarrow> (string \<times> 32 word \<times> bool) list \<Rightarrow> state" where
  "initial_state sysE armE powE ptE =
     \<lparr>Running = map_of (map (\<lambda>n. (n, IDLE_ID)) LanderOpNames),
      CommandStatusCallback = False,
      JointsAtHardTorqueLimit = {},
      JointsAtSoftTorqueLimit = {},
      JointTelemetryMap = Map.empty,
      systemErrors = sysE, armErrors = armE, powerErrors = powE, ptErrors = ptE,
      m_antennaTiltPublisher = None,
      m_antennaPanPublisher = None,
      m_leftImageTriggerPublisher = None,
      m_guardedMoveClient = False,
      m_unstowClient = False,
      m_stowClient = False,
      m_grindClient = False,
      m_digCircularClient = False,
      m_digLinearClient = False,
      m_deliverClient = False,
      m_currentPan = 0, m_currentTilt = 0,
      m_goalPan = 0, m_goalTilt = 0,
      m_panStart = 0, m_tiltStart = 0,
      threads = [],
      events = []\<rparr>"

definition setCommandStatusCallback :: "state \<Rightarrow> state" where
  "setCommandStatusCallback s = s\<lparr>CommandStatusCallback := True\<rparr>"

section \<open>Lander operation support\<close>

definition is_lander_operation :: "string \<Rightarrow> state \<Rightarrow> bool" where
  "is_lander_operation name s \<longleftrightarrow> Running s name \<noteq> None"

text \<open>\<^verbatim>\<open>Running.at (name)\<close> throws \<^verbatim>\<open>std::out_of_range\<close> for a missing key.\<close>

definition Running_at :: "string \<Rightarrow> state \<Rightarrow> error + int" where
  "Running_at name s = (case Running s name of None \<Rightarrow> Inl OutOfRange | Some r \<Rightarrow> Inr r)"

definition mark_operation_running :: "string \<Rightarrow> int \<Rightarrow> state \<Rightarrow> error + (bool \<times> state)" where
  "mark_operation_running name cid s =
     and_then (Running_at name s) (\<lambda>r.
       if r \<noteq> IDLE_ID then
         Inr (False, emit (ROS WARN ''%s already running, ignoring duplicate request.'' [S name]) s)
       else
         Inr (True, emit (PublishOp ''Running'' (B True) name)
                      (s\<lparr>Running := (Running s)(name \<mapsto> cid)\<rparr>)))"

text \<open>The C++ operator \<^verbatim>\<open>!\<close> applied to an \<^verbatim>\<open>int\<close>, its \<^verbatim>\<open>bool\<close> result promoted
  back to \<^verbatim>\<open>int\<close> for a comparison with an \<^verbatim>\<open>int\<close>.\<close>

definition logical_not :: "int \<Rightarrow> int" where
  "logical_not x = (if x = 0 then 1 else 0)"

text \<open>
  The guard of the source is \<^verbatim>\<open>if (! Running.at (name) == IDLE_ID)\<close>.  Unary \<^verbatim>\<open>!\<close>
  binds tighter than \<^verbatim>\<open>==\<close>, so the test compares \<^verbatim>\<open>!Running.at (name)\<close> with
  \<^verbatim>\<open>IDLE_ID\<close>.  The status callback is a static function pointer, null until
  \<^verbatim>\<open>setCommandStatusCallback\<close> is called.
\<close>

definition mark_operation_finished :: "string \<Rightarrow> int \<Rightarrow> state \<Rightarrow> error + state" where
  "mark_operation_finished name cid s =
     and_then (Running_at name s) (\<lambda>r.
       let s1 = (if logical_not r = IDLE_ID
                 then emit (ROS WARN ''%s was not running. Should never happen.'' [S name]) s
                 else s);
           s2 = s1\<lparr>Running := (Running s1)(name \<mapsto> IDLE_ID)\<rparr>;
           s3 = emit (PublishOp ''Running'' (B False) name) s2;
           s4 = emit (PublishOp ''Finished'' (B True) name) s3
       in if cid \<noteq> IDLE_ID then
            (if CommandStatusCallback s4 then Inr (emit (StatusCallback cid True) s4)
             else Inl NullPointer)
          else Inr s4)"

definition operationRunning :: "string \<Rightarrow> state \<Rightarrow> error + bool" where
  "operationRunning name s = and_then (Running_at name s) (\<lambda>r. Inr (r \<noteq> IDLE_ID))"

definition running :: "string \<Rightarrow> state \<Rightarrow> error + (bool \<times> state)" where
  "running name s =
     (if is_lander_operation name s
      then and_then (operationRunning name s) (\<lambda>b. Inr (b, s))
      else Inr (False, emit (ROS ERROR ''OwInterface::running: unsupported operation: %s'' [S name]) s))"

section \<open>Joint and torque support\<close>

definition JointMap :: "(string \<times> Joint) list" where
  "JointMap =
     [(''j_shou_yaw'', shoulder_yaw),
      (''j_shou_pitch'', shoulder_pitch),
      (''j_prox_pitch'', proximal_pitch),
      (''j_dist_pitch'', distal_pitch),
      (''j_hand_yaw'', hand_yaw),
      (''j_scoop_yaw'', scoop_yaw),
      (''j_ant_pan'', antenna_pan),
      (''j_ant_tilt'', antenna_tilt),
      (''j_grinder'', grinder)]"

definition JointMap_size :: nat where
  "JointMap_size = length JointMap"

fun JointPropMap :: "Joint \<Rightarrow> JointProperties" where
  "JointPropMap shoulder_yaw =
     \<lparr>rosName = ''j_shou_yaw'', plexilName = ''ShoulderYaw'', softTorqueLimit = 60, hardTorqueLimit = 80\<rparr>"
| "JointPropMap shoulder_pitch =
     \<lparr>rosName = ''j_shou_pitch'', plexilName = ''ShoulderPitch'', softTorqueLimit = 60, hardTorqueLimit = 80\<rparr>"
| "JointPropMap proximal_pitch =
     \<lparr>rosName = ''j_prox_pitch'', plexilName = ''ProximalPitch'', softTorqueLimit = 60, hardTorqueLimit = 80\<rparr>"
| "JointPropMap distal_pitch =
     \<lparr>rosName = ''j_dist_pitch'', plexilName = ''DistalPitch'', softTorqueLimit = 60, hardTorqueLimit = 80\<rparr>"
| "JointPropMap hand_yaw =
     \<lparr>rosName = ''j_hand_yaw'', plexilName = ''HandYaw'', softTorqueLimit = 60, hardTorqueLimit = 80\<rparr>"
| "JointPropMap scoop_yaw =
     \<lparr>rosName = ''j_scoop_yaw'', plexilName = ''ScoopYaw'', softTorqueLimit = 60, hardTorqueLimit = 80\<rparr>"
| "JointPropMap antenna_pan =
     \<lparr>rosName = ''j_ant_pan'', plexilName = ''AntennaPan'', softTorqueLimit = 30, hardTorqueLimit = 30\<rparr>"
| "JointPropMap antenna_tilt =
     \<lparr>rosName = ''j_ant_tilt'', plexilName = ''AntennaTilt'', softTorqueLimit = 30, hardTorqueLimit = 30\<rparr>"
| "JointPropMap grinder =
     \<lparr>rosName = ''j_grinder'', plexilName = ''Grinder'', softTorqueLimit = 30, hardTorqueLimit = 30\<rparr>"

definition handle_overtorque :: "Joint \<Rightarrow> real \<Rightarrow> state \<Rightarrow> state" where
  "handle_overtorque joint effort s =
     (let joint_name = plexilName (JointPropMap joint) in
      if \<bar>effort\<bar> \<ge> hardTorqueLimit (JointPropMap joint) then
        s\<lparr>JointsAtHardTorqueLimit := insert joint_name (JointsAtHardTorqueLimit s)\<rparr>
      else if \<bar>effort\<bar> \<ge> softTorqueLimit (JointPropMap joint) then
        s\<lparr>JointsAtSoftTorqueLimit := insert joint_name (JointsAtSoftTorqueLimit s)\<rparr>
      else
        s\<lparr>JointsAtHardTorqueLimit := JointsAtHardTorqueLimit s - {joint_name},
          JointsAtSoftTorqueLimit := JointsAtSoftTorqueLimit s - {joint_name}\<rparr>)"

text \<open>Indexing a \<^verbatim>\<open>std::vector\<close> with \<^verbatim>\<open>[]\<close> past its end is undefined behaviour;
  the model stops with an error there.\<close>

definition at_index :: "'a list \<Rightarrow> nat \<Rightarrow> error + 'a" where
  "at_index xs i = (if i < length xs then Inr (xs ! i) else Inl IndexOutOfBounds)"

definition handle_joint_fault :: "Joint \<Rightarrow> nat \<Rightarrow> JointState \<Rightarrow> state \<Rightarrow> error + state" where
  "handle_joint_fault joint joint_index msg s =
     and_then (at_index (msg_effort msg) joint_index) (\<lambda>effort.
       Inr (handle_overtorque joint effort s))"

definition hardTorqueLimitReached :: "string \<Rightarrow> state \<Rightarrow> bool" where
  "hardTorqueLimitReached joint_name s \<longleftrightarrow> joint_name \<in> JointsAtHardTorqueLimit s"

definition softTorqueLimitReached :: "string \<Rightarrow> state \<Rightarrow> bool" where
  "softTorqueLimitReached joint_name s \<longleftrightarrow> joint_name \<in> JointsAtSoftTorqueLimit s"

section \<open>Fault support\<close>

definition checkFaultMessages ::
  "string \<Rightarrow> 'a::len word \<Rightarrow> string \<Rightarrow> 'a word \<Rightarrow> bool \<Rightarrow> state \<Rightarrow> bool \<times> state" where
  "checkFaultMessages fault_component msg_val key val b s =
     (if \<not> b \<and> (msg_val AND val) = val then
        (True, emit (ROS ERROR ''%s ERROR: %s'' [S fault_component, S key]) s)
      else if b \<and> (msg_val AND val) \<noteq> val then
        (True, emit (ROS INFO ''RESOLVED %s ERROR: %s'' [S fault_component, S key]) s)
      else (False, s))"

text \<open>\<^verbatim>\<open>table[key].second = !table[key].second\<close>: the flag of the entry found under
  \<open>key\<close> is negated.  The key is always one of the table's own.\<close>

fun flip_flag :: "string \<Rightarrow> (string \<times> 'a \<times> bool) list \<Rightarrow> (string \<times> 'a \<times> bool) list" where
  "flip_flag key [] = []"
| "flip_flag key ((k, v, b) # tab) =
     (if k = key then (k, v, \<not> b) # tab else (k, v, b) # flip_flag key tab)"

text \<open>
  The body shared by the four fault callbacks: a range-based \<^verbatim>\<open>for\<close> over the
  table, each entry read from the table as it is when the iteration reaches it.
\<close>

fun fault_entries ::
  "string \<Rightarrow> 'a::len word \<Rightarrow> nat list \<Rightarrow> (string \<times> 'a word \<times> bool) list \<times> state \<Rightarrow>
   (string \<times> 'a word \<times> bool) list \<times> state" where
  "fault_entries fault_component msg_val [] (tab, s) = (tab, s)"
| "fault_entries fault_component msg_val (i # rest) (tab, s) =
     (case tab ! i of (key, val, b) \<Rightarrow>
        (case checkFaultMessages fault_component msg_val key val b s of (changed, s1) \<Rightarrow>
           fault_entries fault_component msg_val rest (if changed then flip_flag key tab else tab, s1)))"

definition fault_table_update ::
  "string \<Rightarrow> 'a::len word \<Rightarrow> (string \<times> 'a word \<times> bool) list \<Rightarrow> state \<Rightarrow>
   (string \<times> 'a word \<times> bool) list \<times> state" where
  "fault_table_update fault_component msg_val tab s =
     fault_entries fault_component msg_val [0..<length tab] (tab, s)"

definition systemFaultMessageCallback :: "64 word \<Rightarrow> state \<Rightarrow> state" where
  "systemFaultMessageCallback msg_val s =
     (case fault_table_update ''SYSTEM'' msg_val (systemErrors s) s of
        (tab, s1) \<Rightarrow> s1\<lparr>systemErrors := tab\<rparr>)"

definition armFaultCallback :: "32 word \<Rightarrow> state \<Rightarrow> state" where
  "armFaultCallback msg_val s =
     (case fault_table_update ''ARM'' msg_val (armErrors s) s of
        (tab, s1) \<Rightarrow> s1\<lparr>armErrors := tab\<rparr>)"

definition powerFaultCallback :: "32 word \<Rightarrow> state \<Rightarrow> state" where
  "powerFaultCallback msg_val s =
     (case fault_table_update ''POWER'' msg_val (powerErrors s) s of
        (tab, s1) \<Rightarrow> s1\<lparr>powerErrors := tab\<rparr>)"

definition antennaFaultCallback :: "32 word \<Rightarrow> state \<Rightarrow> state" where
  "antennaFaultCallback msg_val s =
     (case fault_table_update ''ANTENNA'' msg_val (ptErrors s) s of
        (tab, s1) \<Rightarrow> s1\<lparr>ptErrors := tab\<rparr>)"

section \<open>Pan and tilt completion, joint states\<close>

text \<open>\<open>now\<close> is the value \<^verbatim>\<open>ros::Time::now()\<close> returns inside the call.\<close>

definition managePanTilt ::
  "string \<Rightarrow> real \<Rightarrow> real \<Rightarrow> real \<Rightarrow> real \<Rightarrow> real \<Rightarrow> real \<Rightarrow> state \<Rightarrow> error + state" where
  "managePanTilt opname position velocity current goal start now s =
     and_then (operationRunning opname s) (\<lambda>is_running.
       if \<not> is_running then Inr s
       else
         and_then (Running_at opname s) (\<lambda>cid.
           let reached = within_tolerance current goal DegreeTolerance;
               expired = (now > start + PanTiltTimeout)
           in if reached \<or> expired then
                and_then (mark_operation_finished opname cid s) (\<lambda>s1.
                  let s2 = (if expired then emit (ROS ERROR ''%s timed out'' [S opname]) s1
                            else s1)
                  in Inr (if \<not> reached then
                            emit (ROS ERROR ''%s failed. Ended at %f degrees, goal was %f.''
                                    [S opname, F current, F goal]) s2
                          else s2))
              else Inr s))"

primrec for_each :: "('a \<Rightarrow> state \<Rightarrow> error + state) \<Rightarrow> 'a list \<Rightarrow> state \<Rightarrow> error + state" where
  "for_each body [] s = Inr s"
| "for_each body (x # xs) s = and_then (body x s) (for_each body xs)"

text \<open>One iteration of the loop of \<^verbatim>\<open>jointStatesCallback\<close>; \<open>clock i\<close> is the time
  read during iteration \<open>i\<close>.\<close>

definition joint_states_entry :: "JointState \<Rightarrow> (nat \<Rightarrow> real) \<Rightarrow> nat \<Rightarrow> state \<Rightarrow> error + state" where
  "joint_states_entry msg clock i s =
     and_then (at_index (msg_name msg) i) (\<lambda>ros_name.
       case map_of JointMap ros_name of
         Some joint \<Rightarrow>
           and_then (at_index (msg_position msg) i) (\<lambda>position.
           and_then (at_index (msg_velocity msg) i) (\<lambda>velocity.
           and_then (at_index (msg_effort msg) i) (\<lambda>effort.
           and_then
             (if joint = antenna_pan then
                managePanTilt Op_PanAntenna position velocity
                  (m_currentPan s) (m_goalPan s) (m_panStart s) (clock i) s
              else if joint = antenna_tilt then
                managePanTilt Op_TiltAntenna position velocity
                  (m_currentTilt s) (m_goalTilt s) (m_tiltStart s) (clock i) s
              else Inr s)
             (\<lambda>s1.
                let s2 = s1\<lparr>JointTelemetryMap := (JointTelemetryMap s1)
                               (joint \<mapsto> \<lparr>jt_position = position, jt_velocity = velocity,
                                          jt_effort = effort\<rparr>)\<rparr>;
                    plexil_name = plexilName (JointPropMap joint);
                    s3 = emit (Publish (plexil_name @ ''Position'') (D position)) s2;
                    s4 = emit (Publish (plexil_name @ ''Velocity'') (D velocity)) s3;
                    s5 = emit (Publish (plexil_name @ ''Effort'') (D effort)) s4
                in handle_joint_fault joint i msg s5))))
       | None \<Rightarrow>
           Inr (emit (ROS ERROR ''jointStatesCallback: unsupported joint %s'' [S ros_name]) s))"

definition jointStatesCallback :: "JointState \<Rightarrow> (nat \<Rightarrow> real) \<Rightarrow> state \<Rightarrow> error + state" where
  "jointStatesCallback msg clock s =
     for_each (joint_states_entry msg clock) [0..<JointMap_size] s"

section \<open>Antenna and camera support\<close>

definition D2R :: real where
  "D2R = pi / 180"

definition R2D :: real where
  "R2D = 180 / pi"

definition panCallback :: "real \<Rightarrow> state \<Rightarrow> state" where
  "panCallback set_point s =
     (let s1 = s\<lparr>m_currentPan := set_point * R2D\<rparr>
      in emit (Publish ''PanDegrees'' (D (m_currentPan s1))) s1)"

definition tiltCallback :: "real \<Rightarrow> state \<Rightarrow> state" where
  "tiltCallback set_point s =
     (let s1 = s\<lparr>m_currentTilt := set_point * R2D\<rparr>
      in emit (Publish ''TiltDegrees'' (D (m_currentTilt s1))) s1)"

definition cameraCallback :: "state \<Rightarrow> error + state" where
  "cameraCallback s =
     and_then (operationRunning Op_TakePicture s) (\<lambda>is_running.
       if is_running then
         and_then (Running_at Op_TakePicture s) (\<lambda>cid.
           mark_operation_finished Op_TakePicture cid s)
       else Inr s)"

text \<open>\<^verbatim>\<open>pub->publish (...)\<close> through a null publisher pointer stops with an error.\<close>

definition topic_publish :: "string option \<Rightarrow> pub_value \<Rightarrow> state \<Rightarrow> error + state" where
  "topic_publish pub v s =
     (case pub of None \<Rightarrow> Inl NullPointer | Some topic \<Rightarrow> Inr (emit (TopicPublish topic v) s))"

definition antenna_op :: "string \<Rightarrow> real \<Rightarrow> string option \<Rightarrow> int \<Rightarrow> state \<Rightarrow> error + state" where
  "antenna_op opname degrees pub cid s =
     and_then (mark_operation_running opname cid s) (\<lambda>(ok, s1).
       if \<not> ok then Inr s1
       else
         let radians = degrees * D2R;
             s2 = emit (ROS INFO ''Starting %s: %f degrees (%f radians)''
                          [S opname, F degrees, F radians]) s1
         in topic_publish pub (D radians) s2)"

definition tiltAntenna :: "real \<Rightarrow> int \<Rightarrow> real \<Rightarrow> state \<Rightarrow> error + state" where
  "tiltAntenna degrees cid now s =
     (let s1 = s\<lparr>m_goalTilt := degrees\<rparr>;
          s2 = s1\<lparr>m_tiltStart := now\<rparr>
      in antenna_op Op_TiltAntenna degrees (m_antennaTiltPublisher s2) cid s2)"

definition panAntenna :: "real \<Rightarrow> int \<Rightarrow> real \<Rightarrow> state \<Rightarrow> error + state" where
  "panAntenna degrees cid now s =
     (let s1 = s\<lparr>m_goalPan := degrees\<rparr>;
          s2 = s1\<lparr>m_panStart := now\<rparr>
      in antenna_op Op_PanAntenna degrees (m_antennaPanPublisher s2) cid s2)"

definition takePicture :: "int \<Rightarrow> state \<Rightarrow> error + state" where
  "takePicture cid s =
     and_then (mark_operation_running Op_TakePicture cid s) (\<lambda>(ok, s1).
       if \<not> ok then Inr s1
       else
         let s2 = emit (ROS INFO ''Capturing stereo image using left image trigger.'' []) s1
         in topic_publish (m_leftImageTriggerPublisher s2) (B True) s2)"

section \<open>Action support\<close>

text \<open>
  \<^verbatim>\<open>runAction\<close> is the body of an action thread.  \<open>ac\<close> tells whether the action client
  pointer is non-null and \<open>finished_before_timeout\<close> is what \<^verbatim>\<open>ac->waitForResult\<close>
  returns.  The fault watch \<^verbatim>\<open>monitor_for_faults\<close> has an empty body and the done,
  active and feedback callbacks only log; they are not represented.

  The local \<^verbatim>\<open>std::thread fault_thread\<close> is constructed before the test of the client
  pointer.  With a client it is joined after the completion.  In the branch for a null
  client the function returns after the error log with the thread neither joined nor
  detached, so the destructor of the joinable thread calls \<^verbatim>\<open>std::terminate\<close>: the
  process ends there.  \<^verbatim>\<open>guardedMoveAction\<close> has the same shape.
\<close>

definition runAction :: "string \<Rightarrow> bool \<Rightarrow> goal \<Rightarrow> int \<Rightarrow> bool \<Rightarrow> state \<Rightarrow> error + state" where
  "runAction opname ac goal cid finished_before_timeout s =
     (if ac then
        let s1 = emit (SendGoal opname goal) s;
            s2 = (if \<not> finished_before_timeout then
                    emit (ROS WARN ''%s action did not finish before the time out.'' [S opname]) s1
                  else s1)
        in mark_operation_finished opname cid s2
      else Inl (Terminate (emit (ROS ERROR ''%s action client was null!'' [S opname]) s)))"

definition deliverAction :: "real \<Rightarrow> real \<Rightarrow> real \<Rightarrow> int \<Rightarrow> bool \<Rightarrow> state \<Rightarrow> error + state" where
  "deliverAction x y z cid fin s =
     runAction Op_Deliver (m_deliverClient s) (DeliverGoal x y z) cid fin s"

definition digLinearAction ::
  "real \<Rightarrow> real \<Rightarrow> real \<Rightarrow> real \<Rightarrow> real \<Rightarrow> int \<Rightarrow> bool \<Rightarrow> state \<Rightarrow> error + state" where
  "digLinearAction x y depth len ground_pos cid fin s =
     runAction Op_DigLinear (m_digLinearClient s) (DigLinearGoal x y depth len ground_pos) cid fin s"

definition digCircularAction ::
  "real \<Rightarrow> real \<Rightarrow> real \<Rightarrow> real \<Rightarrow> bool \<Rightarrow> int \<Rightarrow> bool \<Rightarrow> state \<Rightarrow> error + state" where
  "digCircularAction x y depth ground_pos parallel cid fin s =
     runAction Op_DigCircular (m_digCircularClient s)
       (DigCircularGoal x y depth ground_pos parallel) cid fin s"

definition unstowAction :: "int \<Rightarrow> bool \<Rightarrow> state \<Rightarrow> error + state" where
  "unstowAction cid fin s = runAction Op_Unstow (m_unstowClient s) (UnstowGoal 0) cid fin s"

definition stowAction :: "int \<Rightarrow> bool \<Rightarrow> state \<Rightarrow> error + state" where
  "stowAction cid fin s = runAction Op_Stow (m_stowClient s) (StowGoal 0) cid fin s"

definition grindAction ::
  "real \<Rightarrow> real \<Rightarrow> real \<Rightarrow> real \<Rightarrow> bool \<Rightarrow> real \<Rightarrow> int \<Rightarrow> bool \<Rightarrow> state \<Rightarrow> error + state" where
  "grindAction x y depth len parallel ground_pos cid fin s =
     runAction Op_Grind (m_grindClient s) (GrindGoal x y depth len parallel ground_pos) cid fin s"

definition guardedMoveAction ::
  "real \<Rightarrow> real \<Rightarrow> real \<Rightarrow> real \<Rightarrow> real \<Rightarrow> real \<Rightarrow> real \<Rightarrow> int \<Rightarrow> bool \<Rightarrow> state \<Rightarrow>
   error + state" where
  "guardedMoveAction x y z dir_x dir_y dir_z search_dist cid finished_before_timeout s =
     (if m_guardedMoveClient s then
        let s1 = emit (SendGoal Op_GuardedMove
                         (GuardedMoveGoal x y z dir_x dir_y dir_z search_dist)) s;
            s2 = (if \<not> finished_before_timeout then
                    emit (ROS WARN ''GuardedMove action did not finish before the time out.'' []) s1
                  else s1)
        in mark_operation_finished Op_GuardedMove cid s2
      else Inl (Terminate (emit (ROS ERROR ''m_guardedMoveClient was null!'' []) s)))"

text \<open>The entry points admit the command and, when admitted, start a detached thread.\<close>

definition start_thread :: "action_thread \<Rightarrow> state \<Rightarrow> state" where
  "start_thread t s = s\<lparr>threads := threads s @ [t]\<rparr>"

definition dispatch :: "string \<Rightarrow> int \<Rightarrow> action_thread \<Rightarrow> state \<Rightarrow> error + state" where
  "dispatch opname cid t s =
     and_then (mark_operation_running opname cid s) (\<lambda>(ok, s1).
       if \<not> ok then Inr s1 else Inr (start_thread t s1))"

definition deliver :: "real \<Rightarrow> real \<Rightarrow> real \<Rightarrow> int \<Rightarrow> state \<Rightarrow> error + state" where
  "deliver x y z cid s = dispatch Op_Deliver cid (DeliverAction x y z cid) s"

definition digLinear ::
  "real \<Rightarrow> real \<Rightarrow> real \<Rightarrow> real \<Rightarrow> real \<Rightarrow> int \<Rightarrow> state \<Rightarrow> error + state" where
  "digLinear x y depth len ground_pos cid s =
     dispatch Op_DigLinear cid (DigLinearAction x y depth len ground_pos cid) s"

definition digCircular ::
  "real \<Rightarrow> real \<Rightarrow> real \<Rightarrow> real \<Rightarrow> bool \<Rightarrow> int \<Rightarrow> state \<Rightarrow> error + state" where
  "digCircular x y depth ground_pos parallel cid s =
     dispatch Op_DigCircular cid (DigCircularAction x y depth ground_pos parallel cid) s"

definition unstow :: "int \<Rightarrow> state \<Rightarrow> error + state" where
  "unstow cid s = dispatch Op_Unstow cid (UnstowAction cid) s"

definition stow :: "int \<Rightarrow> state \<Rightarrow> error + state" where
  "stow cid s = dispatch Op_Stow cid (StowAction cid) s"

definition grind ::
  "real \<Rightarrow> real \<Rightarrow> real \<Rightarrow> real \<Rightarrow> bool \<Rightarrow> real \<Rightarrow> int \<Rightarrow> state \<Rightarrow> error + state" where
  "grind x y depth len parallel ground_pos cid s =
     dispatch Op_Grind cid (GrindAction x y depth len parallel ground_pos cid) s"

definition guardedMove ::
  "real \<Rightarrow> real \<Rightarrow> real \<Rightarrow> real \<Rightarrow> real \<Rightarrow> real \<Rightarrow> real \<Rightarrow> int \<Rightarrow> state \<Rightarrow> error + state" where
  "guardedMove x y z dir_x dir_y dir_z search_dist cid s =
     dispatch Op_GuardedMove cid (GuardedMoveAction x y z dir_x dir_y dir_z search_dist cid) s"

fun thread_body :: "action_thread \<Rightarrow> bool \<Rightarrow> state \<Rightarrow> error + state" where
  "thread_body (GuardedMoveAction x y z dir_x dir_y dir_z search_dist cid) fin s =
     guardedMoveAction x y z dir_x dir_y dir_z search_dist cid fin s"
| "thread_body (DigCircularAction x y depth ground_pos parallel cid) fin s =
     digCircularAction x y depth ground_pos parallel cid fin s"
| "thread_body (DigLinearAction x y depth len ground_pos cid) fin s =
     digLinearAction x y depth len ground_pos cid fin s"
| "thread_body (DeliverAction x y z cid) fin s = deliverAction x y z cid fin s"
| "thread_body (GrindAction x y depth len parallel ground_pos cid) fin s =
     grindAction x y depth len parallel ground_pos cid fin s"
| "thread_body (StowAction cid) fin s = stowAction cid fin s"
| "thread_body (UnstowAction cid) fin s = unstowAction cid fin s"

fun thread_op :: "action_thread \<Rightarrow> string" where
  "thread_op (GuardedMoveAction x y z dir_x dir_y dir_z search_dist cid) = Op_GuardedMove"
| "thread_op (DigCircularAction x y depth ground_pos parallel cid) = Op_DigCircular"
| "thread_op (DigLinearAction x y depth len ground_pos cid) = Op_DigLinear"
| "thread_op (DeliverAction x y z cid) = Op_Deliver"
| "thread_op (GrindAction x y depth len parallel ground_pos cid) = Op_Grind"
| "thread_op (StowAction cid) = Op_Stow"
| "thread_op (UnstowAction cid) = Op_Unstow"

fun thread_id :: "action_thread \<Rightarrow> int" where
  "thread_id (GuardedMoveAction x y z dir_x dir_y dir_z search_dist cid) = cid"
| "thread_id (DigCircularAction x y depth ground_pos parallel cid) = cid"
| "thread_id (DigLinearAction x y depth len ground_pos cid) = cid"
| "thread_id (DeliverAction x y z cid) = cid"
| "thread_id (GrindAction x y depth len parallel ground_pos cid) = cid"
| "thread_id (StowAction cid) = cid"
| "thread_id (UnstowAction cid) = cid"

fun thread_client :: "action_thread \<Rightarrow> state \<Rightarrow> bool" where
  "thread_client (GuardedMoveAction x y z dir_x dir_y dir_z search_dist cid) s = m_guardedMoveClient s"
| "thread_client (DigCircularAction x y depth ground_pos parallel cid) s = m_digCircularClient s"
| "thread_client (DigLinearAction x y depth len ground_pos cid) s = m_digLinearClient s"
| "thread_client (DeliverAction x y z cid) s = m_deliverClient s"
| "thread_client (GrindAction x y depth len parallel ground_pos cid) s = m_grindClient s"
| "thread_client (StowAction cid) s = m_stowClient s"
| "thread_client (UnstowAction cid) s = m_unstowClient s"

section \<open>Runs of the interface\<close>

text \<open>
  What can happen to the interface: a call of an entry point, the body of a started
  action thread running to its end (with the outcome of its wait), and the delivery of a
  message to one of the subscriber callbacks.  Times are those the clock shows during
  the call.  A thread body runs only if the thread has been started and has not run yet.
\<close>

datatype input =
    Call_guardedMove real real real real real real real int
  | Call_tiltAntenna real int real
  | Call_panAntenna real int real
  | Call_takePicture int
  | Call_digLinear real real real real real int
  | Call_digCircular real real real real bool int
  | Call_grind real real real real bool real int
  | Call_stow int
  | Call_unstow int
  | Call_deliver real real real int
  | Call_setCommandStatusCallback
  | Thread_runs action_thread bool
  | Msg_jointStates JointState "nat \<Rightarrow> real"
  | Msg_camera
  | Msg_pan real
  | Msg_tilt real
  | Msg_systemFaults "64 word"
  | Msg_armFaults "32 word"
  | Msg_powerFaults "32 word"
  | Msg_antennaFaults "32 word"

fun step :: "input \<Rightarrow> state \<Rightarrow> error + state" where
  "step (Call_guardedMove x y z dir_x dir_y dir_z search_dist cid) s =
     guardedMove x y z dir_x dir_y dir_z search_dist cid s"
| "step (Call_tiltAntenna degrees cid now) s = tiltAntenna degrees cid now s"
| "step (Call_panAntenna degrees cid now) s = panAntenna degrees cid now s"
| "step (Call_takePicture cid) s = takePicture cid s"
| "step (Call_digLinear x y depth len ground_pos cid) s = digLinear x y depth len ground_pos cid s"
| "step (Call_digCircular x y depth ground_pos parallel cid) s =
     digCircular x y depth ground_pos parallel cid s"
| "step (Call_grind x y depth len parallel ground_pos cid) s =
     grind x y depth len parallel ground_pos cid s"
| "step (Call_stow cid) s = stow cid s"
| "step (Call_unstow cid) s = unstow cid s"
| "step (Call_deliver x y z cid) s = deliver x y z cid s"
| "step Call_setCommandStatusCallback s = Inr (setCommandStatusCallback s)"
| "step (Thread_runs t fin) s =
     (if t \<in> set (threads s) then thread_body t fin (s\<lparr>threads := remove1 t (threads s)\<rparr>)
      else Inr s)"
| "step (Msg_jointStates msg clock) s = jointStatesCallback msg clock s"
| "step Msg_camera s = cameraCallback s"
| "step (Msg_pan set_point) s = Inr (panCallback set_point s)"
| "step (Msg_tilt set_point) s = Inr (tiltCallback set_point s)"
| "step (Msg_systemFaults v) s = Inr (systemFaultMessageCallback v s)"
| "step (Msg_armFaults v) s = Inr (armFaultCallback v s)"
| "step (Msg_powerFaults v) s = Inr (powerFaultCallback v s)"
| "step (Msg_antennaFaults v) s = Inr (antennaFaultCallback v s)"

definition run :: "input list \<Rightarrow> state \<Rightarrow> error + state" where
  "run inputs s = for_each step inputs s"

section \<open>Observations used in the statements\<close>

definition is_log :: "event \<Rightarrow> bool" where
  "is_log e = (case e of ROS sev fmt args \<Rightarrow> True | _ \<Rightarrow> False)"

text \<open>The events emitted between a state and a later one, and those of them that are
  not log entries: notifications, status callbacks, goals and topic messages.\<close>

definition new_events :: "state \<Rightarrow> state \<Rightarrow> event list" where
  "new_events s s' = drop (length (events s)) (events s')"

definition effects :: "event list \<Rightarrow> event list" where
  "effects es = filter (\<lambda>e. \<not> is_log e) es"

definition result_events :: "error + state \<Rightarrow> error + event list" where
  "result_events r = and_then r (\<lambda>s. Inr (events s))"

definition result_effects :: "state \<Rightarrow> error + state \<Rightarrow> error + event list" where
  "result_effects s r = and_then r (\<lambda>s'. Inr (effects (new_events s s')))"

text \<open>
  A sequence of calls of the two registry functions, with what each call of
  \<^verbatim>\<open>mark_operation_running\<close> returns (\<open>None\<close> stands for a call of
  \<^verbatim>\<open>mark_operation_finished\<close>, which returns nothing).
\<close>

datatype registry_call = Admit string int | Complete string int

fun registry_calls :: "registry_call list \<Rightarrow> state \<Rightarrow> error + (bool option list \<times> state)" where
  "registry_calls [] s = Inr ([], s)"
| "registry_calls (Admit name cid # calls) s =
     and_then (mark_operation_running name cid s) (\<lambda>(ok, s1).
       and_then (registry_calls calls s1) (\<lambda>(res, s2). Inr (Some ok # res, s2)))"
| "registry_calls (Complete name cid # calls) s =
     and_then (mark_operation_finished name cid s) (\<lambda>s1.
       and_then (registry_calls calls s1) (\<lambda>(res, s2). Inr (None # res, s2)))"

definition call_results :: "registry_call list \<Rightarrow> state \<Rightarrow> error + bool option list" where
  "call_results calls s = and_then (registry_calls calls s) (\<lambda>(res, s'). Inr res)"

fun admits_name :: "string \<Rightarrow> registry_call \<Rightarrow> bool" where
  "admits_name name (Admit n cid) = (n = name)"
| "admits_name name (Complete n cid) = False"

fun completes_name :: "string \<Rightarrow> registry_call \<Rightarrow> bool" where
  "completes_name name (Admit n cid) = False"
| "completes_name name (Complete n cid) = (n = name)"

text \<open>A state to evaluate on: empty fault tables, status callback registered.\<close>

definition state0 :: state where
  "state0 = setCommandStatusCallback (initial_state [] [] [] [])"

text \<open>The same state with \<open>DigLinear\<close> running under command id 7.\<close>

definition state1 :: state where
  "state1 = state0\<lparr>Running := (Running state0)(Op_DigLinear \<mapsto> 7)\<rparr>"

text \<open>The same state with both antenna publishers advertised, and one with a pan under
  command id 1 (goal 30 degrees, started at time 0) and a tilt under id 2 in progress.\<close>

definition state2 :: state where
  "state2 = state0\<lparr>m_antennaPanPublisher := Some ''/ant_pan_position_controller/command'',
                   m_antennaTiltPublisher := Some ''/ant_tilt_position_controller/command''\<rparr>"

definition state3 :: state where
  "state3 = state2\<lparr>Running := (Running state2)(Op_PanAntenna \<mapsto> 1, Op_TiltAntenna \<mapsto> 2),
                   m_goalPan := 30, m_panStart := 0, m_goalTilt := 10, m_tiltStart := 0\<rparr>"

text \<open>Projections of a state or a result, for evaluation.\<close>

definition torque_sets :: "state \<Rightarrow> string set \<times> string set" where
  "torque_sets s = (JointsAtHardTorqueLimit s, JointsAtSoftTorqueLimit s)"

definition pan_tracking :: "error + state \<Rightarrow> error + (int option \<times> real \<times> real)" where
  "pan_tracking r = and_then r (\<lambda>s. Inr (Running s Op_PanAntenna, m_goalPan s, m_panStart s))"

definition pan_twice :: "real \<Rightarrow> int \<Rightarrow> real \<Rightarrow> real \<Rightarrow> int \<Rightarrow> real \<Rightarrow> state \<Rightarrow> error + state" where
  "pan_twice d1 c1 t1 d2 c2 t2 s = and_then (panAntenna d1 c1 t1 s) (panAntenna d2 c2 t2)"

text \<open>
  What a fault table entry becomes when a bitmask has been tested against it, and the
  log entries the test of one entry gives rise to: one when the result of the test
  differs from the stored flag, none otherwise.
\<close>

definition fault_tested :: "'a::len word \<Rightarrow> string \<times> 'a word \<times> bool \<Rightarrow> string \<times> 'a word \<times> bool" where
  "fault_tested msg_val entry =
     (case entry of (key, val, b) \<Rightarrow> (key, val, (msg_val AND val) = val))"

definition fault_log :: "string \<Rightarrow> 'a::len word \<Rightarrow> string \<times> 'a word \<times> bool \<Rightarrow> event list" where
  "fault_log fault_component msg_val entry =
     (case entry of (key, val, b) \<Rightarrow>
        if ((msg_val AND val) = val) = b then []
        else if b then [ROS INFO ''RESOLVED %s ERROR: %s'' [S fault_component, S key]]
        else [ROS ERROR ''%s ERROR: %s'' [S fault_component, S key]])"

definition fault_flags :: "(string \<times> 'a word \<times> bool) list \<Rightarrow> bool list" where
  "fault_flags tab = map (\<lambda>e. snd (snd e)) tab"

text \<open>A state with three system faults and one arm fault; the fault names are made up.\<close>

definition fault_state :: state where
  "fault_state = state0\<lparr>systemErrors := [(''fault_a'', 1, False), (''fault_b'', 6, False), (''fault_c'', 8, True)],
                        armErrors := [(''fault_d'', 1, False)]\<rparr>"

text \<open>
  A joint states message cut down to its first \<open>n\<close> entries; the condition under
  which the pan and tilt completion cannot fail (both registry entries exist and the
  status callback is registered); and three inputs to evaluate on: a clock that shows 100
  seconds, a message with two entries, and a message whose first nine names are not joints
  of the catalog while the tenth is the pan joint.
\<close>

definition first_entries :: "nat \<Rightarrow> JointState \<Rightarrow> JointState" where
  "first_entries n msg =
     \<lparr>msg_name = take n (msg_name msg), msg_position = take n (msg_position msg),
      msg_velocity = take n (msg_velocity msg), msg_effort = take n (msg_effort msg)\<rparr>"

definition antenna_ready :: "state \<Rightarrow> bool" where
  "antenna_ready s \<longleftrightarrow>
     Running s Op_PanAntenna \<noteq> None \<and> Running s Op_TiltAntenna \<noteq> None \<and> CommandStatusCallback s"

definition unknown_then_pan :: JointState where
  "unknown_then_pan =
     \<lparr>msg_name = replicate 9 ''wheel'' @ [''j_ant_pan''], msg_position = replicate 10 30,
      msg_velocity = replicate 10 0, msg_effort = replicate 10 99\<rparr>"

definition clock0 :: "nat \<Rightarrow> real" where
  "clock0 i = 100"

definition short_batch :: JointState where
  "short_batch =
     \<lparr>msg_name = [''j_shou_yaw'', ''j_ant_pan''], msg_position = [0, 30],
      msg_velocity = [0, 0], msg_effort = [10, 10]\<rparr>"

text \<open>
  Three more messages: nine names that are not joints of the catalog, with empty position,
  velocity and effort arrays; a message with the nine joints of the catalog; and one
  entry for the grinder joint with no effort value.  Then the telemetry stored for a
  joint in the result of a callback.
\<close>

definition nine_wheels :: JointState where
  "nine_wheels =
     \<lparr>msg_name = replicate 9 ''wheel'', msg_position = [], msg_velocity = [], msg_effort = []\<rparr>"

definition full_batch :: JointState where
  "full_batch =
     \<lparr>msg_name = [''j_shou_yaw'', ''j_shou_pitch'', ''j_prox_pitch'', ''j_dist_pitch'', ''j_hand_yaw'',
                  ''j_scoop_yaw'', ''j_ant_pan'', ''j_ant_tilt'', ''j_grinder''],
      msg_position = [1, 2, 3, 4, 5, 6, 7, 8, 9],
      msg_velocity = [0, 0, 0, 0, 0, 0, 0, 0, 0],
      msg_effort = [10, 65, 85, 0, 0, 0, 0, 0, 35]\<rparr>"

definition no_effort :: JointState where
  "no_effort =
     \<lparr>msg_name = [''j_grinder''], msg_position = [9], msg_velocity = [0], msg_effort = []\<rparr>"

definition joint_telemetry :: "Joint \<Rightarrow> error + state \<Rightarrow> error + JointTelemetry option" where
  "joint_telemetry joint r = and_then r (\<lambda>s. Inr (JointTelemetryMap s joint))"

text \<open>
  Counting for a command id: the status callbacks made for it in a list of events, the
  registry entries that hold it, and the commands of a run that were admitted under it
  (the call of \<^verbatim>\<open>mark_operation_running\<close> returned true).
\<close>

definition is_callback_for :: "int \<Rightarrow> event \<Rightarrow> bool" where
  "is_callback_for cid e = (case e of StatusCallback c ok \<Rightarrow> c = cid | _ \<Rightarrow> False)"

definition callbacks_for :: "int \<Rightarrow> event list \<Rightarrow> nat" where
  "callbacks_for cid es = length (filter (is_callback_for cid) es)"

definition holders :: "int \<Rightarrow> state \<Rightarrow> nat" where
  "holders cid s = length (filter (\<lambda>n. Running s n = Some cid) LanderOpNames)"

fun input_command :: "input \<Rightarrow> (string \<times> int) option" where
  "input_command (Call_guardedMove x y z dir_x dir_y dir_z search_dist cid) = Some (Op_GuardedMove, cid)"
| "input_command (Call_tiltAntenna degrees cid now) = Some (Op_TiltAntenna, cid)"
| "input_command (Call_panAntenna degrees cid now) = Some (Op_PanAntenna, cid)"
| "input_command (Call_takePicture cid) = Some (Op_TakePicture, cid)"
| "input_command (Call_digLinear x y depth len ground_pos cid) = Some (Op_DigLinear, cid)"
| "input_command (Call_digCircular x y depth ground_pos parallel cid) = Some (Op_DigCircular, cid)"
| "input_command (Call_grind x y depth len parallel ground_pos cid) = Some (Op_Grind, cid)"
| "input_command (Call_stow cid) = Some (Op_Stow, cid)"
| "input_command (Call_unstow cid) = Some (Op_Unstow, cid)"
| "input_command (Call_deliver x y z cid) = Some (Op_Deliver, cid)"
| "input_command i = None"

definition carries :: "int \<Rightarrow> input \<Rightarrow> bool" where
  "carries cid i = (case input_command i of Some (opname, c) \<Rightarrow> c = cid | None \<Rightarrow> False)"

definition admit_returns_true :: "string \<Rightarrow> int \<Rightarrow> state \<Rightarrow> bool" where
  "admit_returns_true opname cid s =
     (case mark_operation_running opname cid s of Inr (ok, s1) \<Rightarrow> ok | Inl e \<Rightarrow> False)"

definition admitted_by :: "int \<Rightarrow> input \<Rightarrow> state \<Rightarrow> bool" where
  "admitted_by cid i s =
     (case input_command i of
        Some (opname, c) \<Rightarrow> c = cid \<and> admit_returns_true opname c s
      | None \<Rightarrow> False)"

fun admissions :: "int \<Rightarrow> input list \<Rightarrow> state \<Rightarrow> nat" where
  "admissions cid [] s = 0"
| "admissions cid (i # inputs) s =
     (case step i s of
        Inl e \<Rightarrow> 0
      | Inr s' \<Rightarrow> (if admitted_by cid i s then 1 else 0) + admissions cid inputs s')"

text \<open>No command of the run carries the sentinel as its id.\<close>

definition sentinel_free :: "input list \<Rightarrow> bool" where
  "sentinel_free inputs = list_all (\<lambda>i. \<not> carries IDLE_ID i) inputs"

text \<open>
  The started action threads agree with the registry: no two of them are for the same
  operation, and the entry of each holds the thread's command id.
\<close>

definition consistent :: "state \<Rightarrow> bool" where
  "consistent s \<longleftrightarrow>
     distinct (map thread_op (threads s)) \<and>
     list_all (\<lambda>t. Running s (thread_op t) = Some (thread_id t) \<and> thread_id t \<noteq> IDLE_ID) (threads s)"

text \<open>
  Three notions for the proofs about runs: the callbacks made for an id plus the entries
  that hold it; an entry of an action operation that runs with no thread left to
  complete it; and a transition that keeps the threads consistent, adds \<open>n\<close> to the
  count of an id, and leaves such an entry as it is.
\<close>

definition account :: "int \<Rightarrow> state \<Rightarrow> nat" where
  "account cid s = callbacks_for cid (events s) + holders cid s"

definition stuck :: "string \<Rightarrow> int \<Rightarrow> state \<Rightarrow> bool" where
  "stuck opname cid s \<longleftrightarrow>
     Running s opname = Some cid \<and> cid \<noteq> IDLE_ID \<and>
     opname \<notin> thread_op ` set (threads s) \<and>
     opname \<notin> {Op_PanAntenna, Op_TiltAntenna, Op_TakePicture}"

definition tracks :: "int \<Rightarrow> string \<Rightarrow> int \<Rightarrow> state \<Rightarrow> state \<Rightarrow> nat \<Rightarrow> bool" where
  "tracks cid opname c s s1 n \<longleftrightarrow>
     (consistent s \<longrightarrow>
        consistent s1 \<and> account cid s1 = account cid s + n \<and>
        (stuck opname c s \<longrightarrow> stuck opname c s1))"


definition pending_threads :: "error + state \<Rightarrow> error + action_thread list" where
  "pending_threads r = and_then r (\<lambda>s. Inr (threads s))"

definition running_entry :: "string \<Rightarrow> error + state \<Rightarrow> error + int option" where
  "running_entry opname r = and_then r (\<lambda>s. Inr (Running s opname))"

fun null_client_log :: "action_thread \<Rightarrow> event" where
  "null_client_log (GuardedMoveAction x y z dir_x dir_y dir_z search_dist cid) =
     ROS ERROR ''m_guardedMoveClient was null!'' []"
| "null_client_log t = ROS ERROR ''%s action client was null!'' [S (thread_op t)]"

text \<open>States to evaluate on: the delivery client connected; and, with no client
  connected, \<open>Deliver\<close> admitted under id 7 with its thread started.\<close>

definition state4 :: state where
  "state4 = state0\<lparr>m_deliverClient := True\<rparr>"

definition state5 :: state where
  "state5 = state0\<lparr>Running := (Running state0)(Op_Deliver \<mapsto> 7),
                   threads := [DeliverAction 1 2 3 7]\<rparr>"

text \<open>
  The state in which \<^verbatim>\<open>std::terminate\<close> ended the process, if it did, and of that
  state the events, the registry entry of an operation and the number of status callbacks
  made for an id.  What an admission returns after a run.  A state with the stow client
  connected.
\<close>

definition abort_state :: "error + state \<Rightarrow> state option" where
  "abort_state r = (case r of Inl (Terminate s) \<Rightarrow> Some s | _ \<Rightarrow> None)"

definition abort_summary :: "string \<Rightarrow> int \<Rightarrow> error + state \<Rightarrow> (event list \<times> int option \<times> nat) option" where
  "abort_summary opname cid r =
     map_option (\<lambda>s. (events s, Running s opname, callbacks_for cid (events s))) (abort_state r)"

definition admit_after :: "input list \<Rightarrow> string \<Rightarrow> int \<Rightarrow> state \<Rightarrow> error + bool" where
  "admit_after inputs name cid s =
     and_then (run inputs s) (\<lambda>s1.
       and_then (mark_operation_running name cid s1) (\<lambda>(ok, s2). Inr ok))"

definition state6 :: state where
  "state6 = state0\<lparr>m_stowClient := True\<rparr>"

text \<open>The scenario of an admission, a rejected second admission, the completion and a
  new admission for one operation: the values the three admissions return, the
  notifications and callbacks made, and the entry at the end.\<close>

definition registry_scenario ::
  "string \<Rightarrow> int \<Rightarrow> int \<Rightarrow> int \<Rightarrow> state \<Rightarrow> error + (bool list \<times> event list \<times> int option)" where
  "registry_scenario name c1 c2 c3 s =
     and_then (mark_operation_running name c1 s) (\<lambda>(ok1, s1).
     and_then (mark_operation_running name c2 s1) (\<lambda>(ok2, s2).
     and_then (mark_operation_finished name c1 s2) (\<lambda>s3.
     and_then (mark_operation_running name c3 s3) (\<lambda>(ok3, s4).
       Inr ([ok1, ok2, ok3], effects (new_events s s4), Running s4 name)))))"

section \<open>Basic facts\<close>

lemma and_then_simps [simp]:
  "and_then (Inl e) f = Inl e" "and_then (Inr x) f = f x"
  by (simp_all add: and_then_def)

lemma and_then_eq_Inr:
  "and_then r f = Inr y \<longleftrightarrow> (\<exists>x. r = Inr x \<and> f x = Inr y)"
  by (cases r) simp_all

lemma Running_at_Some [simp]: "Running s name = Some r \<Longrightarrow> Running_at name s = Inr r"
  by (simp add: Running_at_def)

lemma Running_at_None [simp]: "Running s name = None \<Longrightarrow> Running_at name s = Inl OutOfRange"
  by (simp add: Running_at_def)

lemma logical_not_ne_IDLE [simp]: "logical_not r \<noteq> IDLE_ID"
  by (simp add: logical_not_def IDLE_ID_def)

lemma mark_operation_finished_eq:
  "Running s name = Some r \<Longrightarrow>
   mark_operation_finished name cid s =
     (if cid \<noteq> IDLE_ID \<and> \<not> CommandStatusCallback s then Inl NullPointer
      else Inr (s\<lparr>Running := (Running s)(name \<mapsto> IDLE_ID),
                 events := events s @ [PublishOp ''Running'' (B False) name,
                                        PublishOp ''Finished'' (B True) name]
                           @ (if cid \<noteq> IDLE_ID then [StatusCallback cid True] else [])\<rparr>))"
  by (simp add: mark_operation_finished_def emit_def Let_def)

lemma mark_operation_running_eq:
  "Running s name = Some r \<Longrightarrow>
   mark_operation_running name cid s =
     (if r \<noteq> IDLE_ID
      then Inr (False, emit (ROS WARN ''%s already running, ignoring duplicate request.'' [S name]) s)
      else Inr (True, emit (PublishOp ''Running'' (B True) name)
                        (s\<lparr>Running := (Running s)(name \<mapsto> cid)\<rparr>)))"
  by (simp add: mark_operation_running_def)

lemma Running_emit [simp]: "Running (emit e s) = Running s"
  by (simp add: emit_def)

lemma mark_operation_running_keeps:
  assumes "Running s name = Some c" "c \<noteq> IDLE_ID"
    and "mark_operation_running name2 cid2 s = Inr (ok, s1)"
  shows "Running s1 name = Some c \<and> (name2 = name \<longrightarrow> \<not> ok)"
proof (cases "Running s name2")
  case None
  with assms(3) show ?thesis by (simp add: mark_operation_running_def)
next
  case (Some r2)
  with assms show ?thesis
    by (auto simp: mark_operation_running_eq split: if_splits)
qed

lemma Running_state0: "Running state0 = map_of (map (\<lambda>n. (n, IDLE_ID)) LanderOpNames)"
  by (simp add: state0_def setCommandStatusCallback_def initial_state_def)

lemma new_events_append [simp]: "new_events s (s'\<lparr>events := events s @ es\<rparr>) = es"
  by (simp add: new_events_def)

lemma effects_simps [simp]:
  "effects [] = []"
  "effects (ROS sev fmt args # es) = effects es"
  "effects (Publish n v # es) = Publish n v # effects es"
  "effects (PublishOp n v opname # es) = PublishOp n v opname # effects es"
  "effects (StatusCallback c ok # es) = StatusCallback c ok # effects es"
  "effects (SendGoal opname g # es) = SendGoal opname g # effects es"
  "effects (TopicPublish topic v # es) = TopicPublish topic v # effects es"
  by (simp_all add: effects_def is_log_def)

section \<open>Operation registry\<close>

lemma Running_state1: "Running state1 = (Running state0)(Op_DigLinear \<mapsto> 7)"
  by (simp add: state1_def)

lemma CommandStatusCallback_state0: "CommandStatusCallback state0"
  by (simp add: state0_def setCommandStatusCallback_def)

lemma CommandStatusCallback_state1: "CommandStatusCallback state1"
  by (simp add: state1_def CommandStatusCallback_state0)

lemma events_state0: "events state0 = []"
  by (simp add: state0_def setCommandStatusCallback_def initial_state_def)

lemma events_state1: "events state1 = []"
  by (simp add: state1_def events_state0)

text \<open>After the completion the operation can be admitted again.\<close>

theorem registry_scenario_evaluation:
  "registry_scenario Op_DigLinear 7 8 9 state0 =
     Inr ([True, False, True],
          [PublishOp ''Running'' (B True) Op_DigLinear,
           PublishOp ''Running'' (B False) Op_DigLinear,
           PublishOp ''Finished'' (B True) Op_DigLinear,
           StatusCallback 7 True,
           PublishOp ''Running'' (B True) Op_DigLinear],
          Some 9)"
  by (simp add: registry_scenario_def Running_state0 LanderOpNames_def mark_operation_running_eq
      mark_operation_finished_eq CommandStatusCallback_state0 events_state0 new_events_def
      emit_def IDLE_ID_def)

text \<open>
  Claim C5, \<^verbatim>\<open>mark_operation_finished\<close>.  For a name of the registry (and a registered
  status callback, when the id is not the sentinel) the call sets the entry to idle, emits
  the notification \<open>Running = false\<close>, then \<open>Finished = true\<close>, and after them calls
  the status callback with the command id and \<open>true\<close> exactly when the id is not
  \<open>IDLE_ID\<close>.  No status callback with another id or with \<open>false\<close> is made.
\<close>

theorem complete_contract:
  assumes "Running s name = Some r" and "cid \<noteq> IDLE_ID \<longrightarrow> CommandStatusCallback s"
  shows "\<exists>s'. mark_operation_finished name cid s = Inr s'
      \<and> Running s' = (Running s)(name \<mapsto> IDLE_ID)
      \<and> operationRunning name s' = Inr False
      \<and> events s' = events s @ new_events s s'
      \<and> effects (new_events s s') =
          [PublishOp ''Running'' (B False) name, PublishOp ''Finished'' (B True) name]
          @ (if cid \<noteq> IDLE_ID then [StatusCallback cid True] else [])
      \<and> (\<forall>c ok. StatusCallback c ok \<in> set (new_events s s') \<longrightarrow> c = cid \<and> ok)"
  using assms
  by (auto simp: mark_operation_finished_eq operationRunning_def)

theorem complete_contract_witness:
  "Running state1 Op_DigLinear = Some 7 \<and> (7::int) \<noteq> IDLE_ID \<and> CommandStatusCallback state1 \<and>
   result_effects state1 (mark_operation_finished Op_DigLinear 7 state1) =
     Inr [PublishOp ''Running'' (B False) Op_DigLinear, PublishOp ''Finished'' (B True) Op_DigLinear,
          StatusCallback 7 True] \<and>
   running_entry Op_DigLinear (mark_operation_finished Op_DigLinear 7 state1) = Inr (Some IDLE_ID)"
proof -
  have r: "Running state1 Op_DigLinear = Some 7" by (simp add: Running_state1)
  have i: "(7::int) \<noteq> IDLE_ID" by (simp add: IDLE_ID_def)
  have c: "CommandStatusCallback state1" by (rule CommandStatusCallback_state1)
  from complete_contract [OF r, of 7] c i obtain s' where
    "mark_operation_finished Op_DigLinear 7 state1 = Inr s'"
    "Running s' = (Running state1)(Op_DigLinear \<mapsto> IDLE_ID)"
    "effects (new_events state1 s') =
       [PublishOp ''Running'' (B False) Op_DigLinear, PublishOp ''Finished'' (B True) Op_DigLinear,
        StatusCallback 7 True]"
    by auto
  with r i c show ?thesis by (simp add: result_effects_def running_entry_def)
qed

text \<open>
  Completing an idle operation is not a no-op.  On the idle entry \<open>DigLinear\<close> no
  log entry is written, both notifications are emitted and the status callback is
  called.
\<close>

theorem complete_idle_counterexample:
  "operationRunning Op_DigLinear state0 = Inr False \<and>
   result_events (mark_operation_finished Op_DigLinear 7 state0) =
     Inr [PublishOp ''Running'' (B False) Op_DigLinear, PublishOp ''Finished'' (B True) Op_DigLinear,
          StatusCallback 7 True]"
  by (simp add: Running_state0 LanderOpNames_def mark_operation_finished_eq result_events_def
      operationRunning_def CommandStatusCallback_state0 events_state0 IDLE_ID_def)

text \<open>
  Claim C6, completing an idle operation, as it holds.  The call leaves every field of
  the state other than the event record unchanged, emits \<open>Running = false\<close> and
  \<open>Finished = true\<close>, and calls the status callback when the id is not the sentinel.
\<close>

theorem complete_idle:
  assumes "Running s name = Some IDLE_ID" and "cid \<noteq> IDLE_ID \<longrightarrow> CommandStatusCallback s"
  shows "\<exists>s'. mark_operation_finished name cid s = Inr s'
      \<and> s'\<lparr>events := events s\<rparr> = s
      \<and> events s' = events s @ new_events s s'
      \<and> effects (new_events s s') =
          [PublishOp ''Running'' (B False) name, PublishOp ''Finished'' (B True) name]
          @ (if cid \<noteq> IDLE_ID then [StatusCallback cid True] else [])"
proof -
  from assms(1) have "(Running s)(name \<mapsto> IDLE_ID) = Running s" by (simp add: fun_upd_idem)
  with assms show ?thesis by (auto simp: mark_operation_finished_eq)
qed

theorem complete_idle_witness:
  "Running state0 Op_Stow = Some IDLE_ID \<and> (5::int) \<noteq> IDLE_ID \<and> CommandStatusCallback state0 \<and>
   result_effects state0 (mark_operation_finished Op_Stow 5 state0) =
     Inr [PublishOp ''Running'' (B False) Op_Stow, PublishOp ''Finished'' (B True) Op_Stow,
          StatusCallback 5 True]"
proof -
  have r: "Running state0 Op_Stow = Some IDLE_ID" by (simp add: Running_state0 LanderOpNames_def)
  have i: "(5::int) \<noteq> IDLE_ID" by (simp add: IDLE_ID_def)
  have c: "CommandStatusCallback state0" by (rule CommandStatusCallback_state0)
  from complete_idle [OF r, of 5] c i obtain s' where
    "mark_operation_finished Op_Stow 5 state0 = Inr s'"
    "effects (new_events state0 s') =
       [PublishOp ''Running'' (B False) Op_Stow, PublishOp ''Finished'' (B True) Op_Stow,
        StatusCallback 5 True]"
    by auto
  with r i c show ?thesis by (simp add: result_effects_def)
qed

section \<open>Torque limits\<close>

text \<open>
  Claim C8, \<^verbatim>\<open>handle_overtorque\<close>.  With the magnitude of the effort at or above the
  joint's hard limit, the joint's name is inserted into the hard-limit set and the
  soft-limit set is left as it is; otherwise, at or above the soft limit, the name is
  inserted into the soft-limit set and the hard-limit set is left as it is; otherwise the
  name is removed from both sets.  Nothing else in the state changes.
\<close>

theorem handle_overtorque_sets:
  "(\<bar>effort\<bar> \<ge> hardTorqueLimit (JointPropMap joint) \<longrightarrow>
      JointsAtHardTorqueLimit (handle_overtorque joint effort s) =
        insert (plexilName (JointPropMap joint)) (JointsAtHardTorqueLimit s) \<and>
      JointsAtSoftTorqueLimit (handle_overtorque joint effort s) = JointsAtSoftTorqueLimit s)
   \<and> (\<bar>effort\<bar> < hardTorqueLimit (JointPropMap joint) \<and>
        \<bar>effort\<bar> \<ge> softTorqueLimit (JointPropMap joint) \<longrightarrow>
      JointsAtSoftTorqueLimit (handle_overtorque joint effort s) =
        insert (plexilName (JointPropMap joint)) (JointsAtSoftTorqueLimit s) \<and>
      JointsAtHardTorqueLimit (handle_overtorque joint effort s) = JointsAtHardTorqueLimit s)
   \<and> (\<bar>effort\<bar> < hardTorqueLimit (JointPropMap joint) \<and>
        \<bar>effort\<bar> < softTorqueLimit (JointPropMap joint) \<longrightarrow>
      JointsAtHardTorqueLimit (handle_overtorque joint effort s) =
        JointsAtHardTorqueLimit s - {plexilName (JointPropMap joint)} \<and>
      JointsAtSoftTorqueLimit (handle_overtorque joint effort s) =
        JointsAtSoftTorqueLimit s - {plexilName (JointPropMap joint)})
   \<and> (handle_overtorque joint effort s)
        \<lparr>JointsAtHardTorqueLimit := JointsAtHardTorqueLimit s,
         JointsAtSoftTorqueLimit := JointsAtSoftTorqueLimit s\<rparr> = s"
  by (simp add: handle_overtorque_def Let_def)

lemma torque_state0: "torque_sets state0 = ({}, {})"
  by (simp add: torque_sets_def state0_def setCommandStatusCallback_def initial_state_def)

theorem handle_overtorque_sets_witness:
  "torque_sets (handle_overtorque shoulder_yaw 65 state0) = ({}, {''ShoulderYaw''}) \<and>
   torque_sets (handle_overtorque shoulder_yaw (- 85) (handle_overtorque shoulder_yaw 65 state0))
     = ({''ShoulderYaw''}, {''ShoulderYaw''}) \<and>
   torque_sets (handle_overtorque shoulder_yaw 10
      (handle_overtorque shoulder_yaw (- 85) (handle_overtorque shoulder_yaw 65 state0))) = ({}, {})"
  using handle_overtorque_sets [where effort = 65 and joint = shoulder_yaw and s = state0]
    handle_overtorque_sets [where effort = "- 85" and joint = shoulder_yaw
      and s = "handle_overtorque shoulder_yaw 65 state0"]
    handle_overtorque_sets [where effort = 10 and joint = shoulder_yaw
      and s = "handle_overtorque shoulder_yaw (- 85) (handle_overtorque shoulder_yaw 65 state0)"]
    torque_state0
  by (simp add: torque_sets_def)

section \<open>Pan and tilt\<close>

lemma operationRunning_Some [simp]:
  "Running s name = Some r \<Longrightarrow> operationRunning name s = Inr (r \<noteq> IDLE_ID)"
  by (simp add: operationRunning_def)

lemma emit_fields [simp]:
  "CommandStatusCallback (emit e s) = CommandStatusCallback s"
  "events (emit e s) = events s @ [e]"
  "m_goalPan (emit e s) = m_goalPan s" "m_panStart (emit e s) = m_panStart s"
  "m_goalTilt (emit e s) = m_goalTilt s" "m_tiltStart (emit e s) = m_tiltStart s"
  "threads (emit e s) = threads s"
  by (simp_all add: emit_def)

text \<open>
  Claim C9, a pan or tilt command that is not admitted.  \<^verbatim>\<open>panAntenna\<close> and
  \<^verbatim>\<open>tiltAntenna\<close> assign the goal angle and the start time before the admission check
  of \<^verbatim>\<open>antenna_op\<close>, so a command rejected because the operation is running still
  replaces the goal and the start time of the operation in flight.
\<close>

theorem rejected_antenna_command:
  assumes "Running s Op_PanAntenna = Some r" and "r \<noteq> IDLE_ID"
    and "Running s Op_TiltAntenna = Some r'" and "r' \<noteq> IDLE_ID"
  shows "panAntenna degrees cid now s =
           Inr (emit (ROS WARN ''%s already running, ignoring duplicate request.'' [S Op_PanAntenna])
                  (s\<lparr>m_goalPan := degrees, m_panStart := now\<rparr>))
       \<and> tiltAntenna degrees cid now s =
           Inr (emit (ROS WARN ''%s already running, ignoring duplicate request.'' [S Op_TiltAntenna])
                  (s\<lparr>m_goalTilt := degrees, m_tiltStart := now\<rparr>))"
  using assms
  by (simp add: panAntenna_def tiltAntenna_def antenna_op_def mark_operation_running_eq)

lemma state2_fields:
  "Running state2 = Running state0" "m_antennaPanPublisher state2 = Some ''/ant_pan_position_controller/command''"
  "m_antennaTiltPublisher state2 = Some ''/ant_tilt_position_controller/command''"
  "CommandStatusCallback state2" "events state2 = []"
  by (simp_all add: state2_def CommandStatusCallback_state0 events_state0)

lemma state3_fields:
  "Running state3 = (Running state0)(Op_PanAntenna \<mapsto> 1, Op_TiltAntenna \<mapsto> 2)"
  "CommandStatusCallback state3" "events state3 = []"
  "m_goalPan state3 = 30" "m_panStart state3 = 0"
  by (simp_all add: state3_def state2_fields)

theorem rejected_antenna_command_witness:
  "Running state3 Op_PanAntenna = Some 1 \<and> (1::int) \<noteq> IDLE_ID \<and>
   Running state3 Op_TiltAntenna = Some 2 \<and> (2::int) \<noteq> IDLE_ID \<and>
   m_goalPan state3 = 30 \<and> m_panStart state3 = 0 \<and>
   pan_tracking (panAntenna 90 5 3 state3) = Inr (Some 1, 90, 3)"
proof -
  have r: "Running state3 Op_PanAntenna = Some 1" "Running state3 Op_TiltAntenna = Some 2"
    by (simp_all add: state3_fields)
  have i: "(1::int) \<noteq> IDLE_ID" "(2::int) \<noteq> IDLE_ID" by (simp_all add: IDLE_ID_def)
  from rejected_antenna_command [OF r(1) i(1) r(2) i(2), of 90 5 3] r
  have "pan_tracking (panAntenna 90 5 3 state3) = Inr (Some 1, 90, 3)"
    by (simp add: pan_tracking_def)
  with r i show ?thesis by (simp add: state3_fields)
qed

text \<open>Two pan commands in a row from the idle state: the second one is rejected, the
  operation keeps id 1, and the goal and start time are those of the second command.\<close>

theorem rejected_pan_evaluation:
  "pan_tracking (panAntenna 30 1 0 state2) = Inr (Some 1, 30, 0) \<and>
   pan_tracking (pan_twice 30 1 0 90 2 3 state2) = Inr (Some 1, 90, 3)"
  by (simp add: pan_tracking_def pan_twice_def panAntenna_def antenna_op_def topic_publish_def
      mark_operation_running_eq state2_fields Running_state0 LanderOpNames_def IDLE_ID_def Let_def)

lemma managePanTilt_eq:
  assumes "Running s opname = Some r" and "CommandStatusCallback s"
  shows "managePanTilt opname position velocity current goal start now s =
     Inr (if r \<noteq> IDLE_ID \<and> (\<bar>current - goal\<bar> \<le> 0.2 \<or> now > start + 5) then
            s\<lparr>Running := (Running s)(opname \<mapsto> IDLE_ID),
              events := events s @
                [PublishOp ''Running'' (B False) opname, PublishOp ''Finished'' (B True) opname,
                 StatusCallback r True]
                @ (if now > start + 5 then [ROS ERROR ''%s timed out'' [S opname]] else [])
                @ (if \<not> \<bar>current - goal\<bar> \<le> 0.2 then
                     [ROS ERROR ''%s failed. Ended at %f degrees, goal was %f.''
                        [S opname, F current, F goal]]
                   else [])\<rparr>
          else s)"
  using assms
  by (simp add: managePanTilt_def mark_operation_finished_eq within_tolerance_def
      DegreeTolerance_def PanTiltTimeout_def Let_def emit_def)

text \<open>
  Claim C4, \<^verbatim>\<open>managePanTilt\<close>, for an operation of the registry with the status callback
  registered.  A sample completes the operation exactly when the operation is running
  and the current angle is within 0.2 of the goal or the time is later than the start
  plus 5 seconds.  A completing sample sets the entry to idle, emits the two
  notifications and the status callback with the id the entry held, then logs the
  timeout error if and only if the timeout has expired, then the failure error with the
  final and goal values if and only if the goal is not reached; it changes nothing else,
  and every further sample, whatever its values, leaves the state as it is.  A sample
  that does not complete the operation, in particular any sample while the operation is
  idle, changes nothing and emits nothing.
\<close>

theorem managePanTilt_contract:
  assumes "Running s opname = Some r" and "CommandStatusCallback s"
  shows "\<exists>s'. managePanTilt opname position velocity current goal start now s = Inr s'
     \<and> (r \<noteq> IDLE_ID \<and> (\<bar>current - goal\<bar> \<le> 0.2 \<or> now > start + 5) \<longrightarrow>
          Running s' = (Running s)(opname \<mapsto> IDLE_ID) \<and>
          events s' = events s @
            [PublishOp ''Running'' (B False) opname, PublishOp ''Finished'' (B True) opname,
             StatusCallback r True]
            @ (if now > start + 5 then [ROS ERROR ''%s timed out'' [S opname]] else [])
            @ (if \<not> \<bar>current - goal\<bar> \<le> 0.2 then
                 [ROS ERROR ''%s failed. Ended at %f degrees, goal was %f.''
                    [S opname, F current, F goal]]
               else []) \<and>
          s'\<lparr>Running := Running s, events := events s\<rparr> = s \<and>
          managePanTilt opname position2 velocity2 current2 goal2 start2 now2 s' = Inr s')
     \<and> (\<not> (r \<noteq> IDLE_ID \<and> (\<bar>current - goal\<bar> \<le> 0.2 \<or> now > start + 5)) \<longrightarrow> s' = s)"
proof -
  let ?c = "r \<noteq> IDLE_ID \<and> (\<bar>current - goal\<bar> \<le> 0.2 \<or> now > start + 5)"
  note eq = managePanTilt_eq [OF assms, of position velocity current goal start now]
  show ?thesis
  proof (cases ?c)
    case True
    define s' where "s' = s\<lparr>Running := (Running s)(opname \<mapsto> IDLE_ID),
              events := events s @
                [PublishOp ''Running'' (B False) opname, PublishOp ''Finished'' (B True) opname,
                 StatusCallback r True]
                @ (if now > start + 5 then [ROS ERROR ''%s timed out'' [S opname]] else [])
                @ (if \<not> \<bar>current - goal\<bar> \<le> 0.2 then
                     [ROS ERROR ''%s failed. Ended at %f degrees, goal was %f.''
                        [S opname, F current, F goal]]
                   else [])\<rparr>"
    from eq True have r: "managePanTilt opname position velocity current goal start now s = Inr s'"
      by (simp add: s'_def)
    have idle: "Running s' opname = Some IDLE_ID" and cb: "CommandStatusCallback s'"
      using assms(2) by (simp_all add: s'_def)
    have again: "managePanTilt opname position2 velocity2 current2 goal2 start2 now2 s' = Inr s'"
      using managePanTilt_eq [OF idle cb] by simp
    from r again True show ?thesis by (simp add: s'_def)
  next
    case False
    with eq show ?thesis by auto
  qed
qed

theorem managePanTilt_contract_witness:
  "Running state3 Op_PanAntenna = Some 1 \<and> CommandStatusCallback state3 \<and>
   result_events (managePanTilt Op_PanAntenna 0 0 29.85 30 0 2 state3) =
     Inr [PublishOp ''Running'' (B False) Op_PanAntenna, PublishOp ''Finished'' (B True) Op_PanAntenna,
          StatusCallback 1 True] \<and>
   result_events (managePanTilt Op_PanAntenna 0 0 10 30 0 4 state3) = Inr [] \<and>
   result_events (managePanTilt Op_PanAntenna 0 0 10 30 0 5.5 state3) =
     Inr [PublishOp ''Running'' (B False) Op_PanAntenna, PublishOp ''Finished'' (B True) Op_PanAntenna,
          StatusCallback 1 True, ROS ERROR ''%s timed out'' [S Op_PanAntenna],
          ROS ERROR ''%s failed. Ended at %f degrees, goal was %f.'' [S Op_PanAntenna, F 10, F 30]]"
proof -
  have r: "Running state3 Op_PanAntenna = Some 1" by (simp add: state3_fields)
  have c: "CommandStatusCallback state3" by (simp add: state3_fields)
  have i: "(1::int) \<noteq> IDLE_ID" by (simp add: IDLE_ID_def)
  from managePanTilt_contract [OF r c, of 0 0 "29.85" 30 0 2 0 0 30 30 0 3] i
  have a: "result_events (managePanTilt Op_PanAntenna 0 0 29.85 30 0 2 state3) =
     Inr [PublishOp ''Running'' (B False) Op_PanAntenna, PublishOp ''Finished'' (B True) Op_PanAntenna,
          StatusCallback 1 True]"
    by (auto simp: result_events_def state3_fields)
  from managePanTilt_contract [OF r c, of 0 0 10 30 0 4 0 0 30 30 0 3] i
  have b: "result_events (managePanTilt Op_PanAntenna 0 0 10 30 0 4 state3) = Inr []"
    by (auto simp: result_events_def state3_fields)
  from managePanTilt_contract [OF r c, of 0 0 10 30 0 "5.5" 0 0 30 30 0 3] i
  have d: "result_events (managePanTilt Op_PanAntenna 0 0 10 30 0 5.5 state3) =
     Inr [PublishOp ''Running'' (B False) Op_PanAntenna, PublishOp ''Finished'' (B True) Op_PanAntenna,
          StatusCallback 1 True, ROS ERROR ''%s timed out'' [S Op_PanAntenna],
          ROS ERROR ''%s failed. Ended at %f degrees, goal was %f.'' [S Op_PanAntenna, F 10, F 30]]"
    by (auto simp: result_events_def state3_fields)
  from r c a b d show ?thesis by simp
qed

section \<open>Fault tracking\<close>

lemma flip_flag_nth:
  "distinct (map fst tab) \<Longrightarrow> i < length tab \<Longrightarrow> tab ! i = (k, v, b) \<Longrightarrow>
   flip_flag k tab = tab[i := (k, v, \<not> b)]"
proof (induction tab arbitrary: i)
  case Nil
  then show ?case by simp
next
  case (Cons e tab)
  obtain k' v' b' where e: "e = (k', v', b')" by (cases e) auto
  show ?case
  proof (cases i)
    case 0
    with Cons.prems e show ?thesis by simp
  next
    case (Suc j)
    with Cons.prems have j: "j < length tab" "tab ! j = (k, v, b)" by simp_all
    then have "k \<in> fst ` set tab" by (metis fst_conv imageI nth_mem)
    with Cons.prems(1) e have ne: "k' \<noteq> k" by auto
    from Cons.prems(1) have "distinct (map fst tab)" by simp
    from Cons.IH [OF this j] ne e Suc show ?thesis by simp
  qed
qed

lemma checkFaultMessages_eq:
  "checkFaultMessages fault_component msg_val key val b s =
     (((msg_val AND val) = val) \<noteq> b,
      s\<lparr>events := events s @ fault_log fault_component msg_val (key, val, b)\<rparr>)"
  by (auto simp: checkFaultMessages_def fault_log_def emit_def)

lemma fault_entries_from:
  "distinct (map fst tab) \<Longrightarrow> i \<le> length tab \<Longrightarrow>
   fault_entries fault_component msg_val [i..<length tab] (tab, s) =
     (take i tab @ map (fault_tested msg_val) (drop i tab),
      s\<lparr>events := events s @ concat (map (fault_log fault_component msg_val) (drop i tab))\<rparr>)"
proof (induction "length tab - i" arbitrary: i tab s)
  case 0
  then show ?case by simp
next
  case (Suc n)
  then have i: "i < length tab" by simp
  obtain k v b where e: "tab ! i = (k, v, b)" by (cases "tab ! i") auto
  define t where "t = ((msg_val AND v) = v)"
  define tab' where "tab' = tab[i := (k, v, t)]"
  define s1 where "s1 = s\<lparr>events := events s @ fault_log fault_component msg_val (k, v, b)\<rparr>"
  have upd: "(if t \<noteq> b then flip_flag k tab else tab) = tab'"
  proof (cases "t = b")
    case True
    with e list_update_id [of tab i] have "tab[i := (k, v, t)] = tab" by simp
    with True show ?thesis by (simp add: tab'_def)
  next
    case False
    with flip_flag_nth [OF Suc.prems(1) i e] show ?thesis by (auto simp: tab'_def)
  qed
  have "map fst tab' = (map fst tab)[i := k]" by (simp add: tab'_def map_update)
  also have "\<dots> = map fst tab" using e i list_update_id [of "map fst tab" i] by simp
  finally have d': "distinct (map fst tab')" using Suc.prems(1) by simp
  have l': "length tab' = length tab" by (simp add: tab'_def)
  have n: "n = length tab' - Suc i" using Suc.hyps(2) l' by simp
  have le: "Suc i \<le> length tab'" using i l' by simp
  have "fault_entries fault_component msg_val [i..<length tab] (tab, s) =
      fault_entries fault_component msg_val (i # [Suc i..<length tab]) (tab, s)"
    using i by (simp only: upt_conv_Cons)
  also have "\<dots> = fault_entries fault_component msg_val [Suc i..<length tab'] (tab', s1)"
    using e upd by (simp add: checkFaultMessages_eq t_def s1_def l')
  also note Suc.hyps(1) [OF n d' le]
  finally have step: "fault_entries fault_component msg_val [i..<length tab] (tab, s) =
     (take (Suc i) tab' @ map (fault_tested msg_val) (drop (Suc i) tab'),
      s1\<lparr>events := events s1 @ concat (map (fault_log fault_component msg_val) (drop (Suc i) tab'))\<rparr>)" .
  have dr: "drop i tab = (k, v, b) # drop (Suc i) tab"
    using i e by (simp add: Cons_nth_drop_Suc [symmetric])
  have dr': "drop (Suc i) tab' = drop (Suc i) tab" by (simp add: tab'_def)
  have tk: "take (Suc i) tab' = take i tab @ [(k, v, t)]"
    using i by (simp add: take_Suc_conv_app_nth tab'_def)
  have ft: "fault_tested msg_val (k, v, b) = (k, v, t)" by (simp add: fault_tested_def t_def)
  show ?case
    by (simp only: step dr dr' tk ft list.map concat.simps append_assoc append.simps s1_def)
       (simp add: s1_def)
qed

lemma fault_table_update_eq:
  "distinct (map fst tab) \<Longrightarrow>
   fault_table_update fault_component msg_val tab s =
     (map (fault_tested msg_val) tab,
      s\<lparr>events := events s @ concat (map (fault_log fault_component msg_val) tab)\<rparr>)"
  using fault_entries_from [of tab 0] by (simp add: fault_table_update_def)

lemma fault_tested_twice [simp]: "fault_tested msg_val (fault_tested msg_val e) = fault_tested msg_val e"
  by (cases e) (simp add: fault_tested_def)

lemma fst_fault_tested [simp]: "fst (fault_tested msg_val e) = fst e"
  by (cases e) (simp add: fault_tested_def)

lemma fault_log_tested [simp]: "fault_log fault_component msg_val (fault_tested msg_val e) = []"
  by (cases e) (simp add: fault_tested_def fault_log_def)

lemma concat_fault_log_tested [simp]:
  "concat (map (fault_log fault_component msg_val \<circ> fault_tested msg_val) tab) = []"
  by (induction tab) simp_all

lemma map_fst_fault_tested [simp]: "map (fst \<circ> fault_tested msg_val) tab = map fst tab"
  by (induction tab) simp_all

lemma map_fault_tested_twice [simp]:
  "map (fault_tested msg_val \<circ> fault_tested msg_val) tab = map (fault_tested msg_val) tab"
  by (induction tab) simp_all

lemma systemFaultMessageCallback_eq:
  "distinct (map fst (systemErrors s)) \<Longrightarrow>
   systemFaultMessageCallback msg_val s =
     s\<lparr>systemErrors := map (fault_tested msg_val) (systemErrors s),
       events := events s @ concat (map (fault_log ''SYSTEM'' msg_val) (systemErrors s))\<rparr>"
  by (simp add: systemFaultMessageCallback_def fault_table_update_eq)

lemma armFaultCallback_eq:
  "distinct (map fst (armErrors s)) \<Longrightarrow>
   armFaultCallback msg_val s =
     s\<lparr>armErrors := map (fault_tested msg_val) (armErrors s),
       events := events s @ concat (map (fault_log ''ARM'' msg_val) (armErrors s))\<rparr>"
  by (simp add: armFaultCallback_def fault_table_update_eq)

lemma powerFaultCallback_eq:
  "distinct (map fst (powerErrors s)) \<Longrightarrow>
   powerFaultCallback msg_val s =
     s\<lparr>powerErrors := map (fault_tested msg_val) (powerErrors s),
       events := events s @ concat (map (fault_log ''POWER'' msg_val) (powerErrors s))\<rparr>"
  by (simp add: powerFaultCallback_def fault_table_update_eq)

lemma antennaFaultCallback_eq:
  "distinct (map fst (ptErrors s)) \<Longrightarrow>
   antennaFaultCallback msg_val s =
     s\<lparr>ptErrors := map (fault_tested msg_val) (ptErrors s),
       events := events s @ concat (map (fault_log ''ANTENNA'' msg_val) (ptErrors s))\<rparr>"
  by (simp add: antennaFaultCallback_def fault_table_update_eq)

text \<open>
  Claim C7, the four fault callbacks, for tables with pairwise different fault names (the
  keys of a \<^verbatim>\<open>std::map\<close>).  After a callback has processed a bitmask, the stored flag of
  every fault of its table equals the bit test \<open>(bitmask AND value) = value\<close>; one log
  entry is written for each fault whose test differs from the flag stored before, and
  none for the others; the tables of the other domains and the rest of the state are
  unchanged.  Processing the same bitmask a second time changes nothing and logs nothing.
\<close>

theorem fault_callbacks:
  assumes "distinct (map fst (systemErrors s))" and "distinct (map fst (armErrors s))"
    and "distinct (map fst (powerErrors s))" and "distinct (map fst (ptErrors s))"
  shows "systemFaultMessageCallback m64 s =
           s\<lparr>systemErrors := map (fault_tested m64) (systemErrors s),
             events := events s @ concat (map (fault_log ''SYSTEM'' m64) (systemErrors s))\<rparr>
       \<and> armFaultCallback m32 s =
           s\<lparr>armErrors := map (fault_tested m32) (armErrors s),
             events := events s @ concat (map (fault_log ''ARM'' m32) (armErrors s))\<rparr>
       \<and> powerFaultCallback m32 s =
           s\<lparr>powerErrors := map (fault_tested m32) (powerErrors s),
             events := events s @ concat (map (fault_log ''POWER'' m32) (powerErrors s))\<rparr>
       \<and> antennaFaultCallback m32 s =
           s\<lparr>ptErrors := map (fault_tested m32) (ptErrors s),
             events := events s @ concat (map (fault_log ''ANTENNA'' m32) (ptErrors s))\<rparr>
       \<and> systemFaultMessageCallback m64 (systemFaultMessageCallback m64 s) =
           systemFaultMessageCallback m64 s
       \<and> armFaultCallback m32 (armFaultCallback m32 s) = armFaultCallback m32 s
       \<and> powerFaultCallback m32 (powerFaultCallback m32 s) = powerFaultCallback m32 s
       \<and> antennaFaultCallback m32 (antennaFaultCallback m32 s) = antennaFaultCallback m32 s"
  using assms
  by (simp add: systemFaultMessageCallback_eq armFaultCallback_eq powerFaultCallback_eq
      antennaFaultCallback_eq)

lemma fault_state_fields:
  "systemErrors fault_state = [(''fault_a'', 1, False), (''fault_b'', 6, False), (''fault_c'', 8, True)]"
  "armErrors fault_state = [(''fault_d'', 1, False)]"
  "powerErrors fault_state = []" "ptErrors fault_state = []" "events fault_state = []"
  by (simp_all add: fault_state_def state0_def setCommandStatusCallback_def initial_state_def)

theorem fault_callbacks_witness:
  "distinct (map fst (systemErrors fault_state)) \<and> distinct (map fst (armErrors fault_state)) \<and>
   distinct (map fst (powerErrors fault_state)) \<and> distinct (map fst (ptErrors fault_state)) \<and>
   fault_flags (systemErrors (systemFaultMessageCallback 7 fault_state)) = [True, True, False] \<and>
   events (systemFaultMessageCallback 7 fault_state) =
     [ROS ERROR ''%s ERROR: %s'' [S ''SYSTEM'', S ''fault_a''],
      ROS ERROR ''%s ERROR: %s'' [S ''SYSTEM'', S ''fault_b''],
      ROS INFO ''RESOLVED %s ERROR: %s'' [S ''SYSTEM'', S ''fault_c'']] \<and>
   armErrors (systemFaultMessageCallback 7 fault_state) = armErrors fault_state \<and>
   systemFaultMessageCallback 7 (systemFaultMessageCallback 7 fault_state) =
     systemFaultMessageCallback 7 fault_state"
proof -
  have d: "distinct (map fst (systemErrors fault_state))" "distinct (map fst (armErrors fault_state))"
    "distinct (map fst (powerErrors fault_state))" "distinct (map fst (ptErrors fault_state))"
    by (simp_all add: fault_state_fields)
  from fault_callbacks [OF d, of 7 1] d show ?thesis
    by (simp add: fault_state_fields fault_flags_def fault_tested_def fault_log_def
        systemFaultMessageCallback_eq)
qed

section \<open>Joint states\<close>

lemma JointMap_size_9: "JointMap_size = 9"
  by (simp add: JointMap_size_def JointMap_def)

lemma at_index_take: "i < n \<Longrightarrow> at_index (take n xs) i = at_index xs i"
  by (simp add: at_index_def)

lemma joint_states_entry_first:
  "i < n \<Longrightarrow> joint_states_entry (first_entries n msg) clock i s = joint_states_entry msg clock i s"
proof -
  assume i: "i < n"
  have sel: "at_index (msg_name (first_entries n msg)) i = at_index (msg_name msg) i"
    "at_index (msg_position (first_entries n msg)) i = at_index (msg_position msg) i"
    "at_index (msg_velocity (first_entries n msg)) i = at_index (msg_velocity msg) i"
    "at_index (msg_effort (first_entries n msg)) i = at_index (msg_effort msg) i"
    using i by (simp_all add: first_entries_def at_index_take)
  show ?thesis
    by (simp only: joint_states_entry_def handle_joint_fault_def sel)
qed

lemma for_each_cong:
  "(\<And>x s. x \<in> set xs \<Longrightarrow> f x s = g x s) \<Longrightarrow> for_each f xs s = for_each g xs s"
proof (induction xs arbitrary: s)
  case Nil
  then show ?case by simp
next
  case (Cons x xs)
  have "f x s = g x s" by (rule Cons.prems) simp
  moreover have "for_each f xs s' = for_each g xs s'" for s'
    by (rule Cons.IH) (simp add: Cons.prems)
  ultimately show ?case by (cases "g x s") simp_all
qed

lemma jointStatesCallback_first:
  "jointStatesCallback (first_entries JointMap_size msg) clock s = jointStatesCallback msg clock s"
  unfolding jointStatesCallback_def
  by (rule for_each_cong) (simp add: joint_states_entry_first)

lemma managePanTilt_unfold:
  "Running s opname = Some r \<Longrightarrow>
   managePanTilt opname position velocity current goal start now s =
     (if r \<noteq> IDLE_ID \<and> (within_tolerance current goal DegreeTolerance \<or> now > start + PanTiltTimeout)
      then and_then (mark_operation_finished opname r s) (\<lambda>s1.
             Inr ((if \<not> within_tolerance current goal DegreeTolerance then
                     emit (ROS ERROR ''%s failed. Ended at %f degrees, goal was %f.''
                             [S opname, F current, F goal])
                   else (\<lambda>s. s))
                    ((if now > start + PanTiltTimeout
                      then emit (ROS ERROR ''%s timed out'' [S opname]) else (\<lambda>s. s)) s1)))
      else Inr s)"
  by (simp add: managePanTilt_def Let_def)

lemma managePanTilt_ready:
  assumes "antenna_ready s" and "opname = Op_PanAntenna \<or> opname = Op_TiltAntenna"
  shows "\<exists>s'. managePanTilt opname position velocity current goal start now s = Inr s' \<and>
              antenna_ready s'"
proof -
  from assms obtain r where r: "Running s opname = Some r" and c: "CommandStatusCallback s"
    by (auto simp: antenna_ready_def)
  from assms(1) show ?thesis
    unfolding managePanTilt_eq [OF r c] by (auto simp: antenna_ready_def)
qed

lemma antenna_ready_update [simp]:
  "antenna_ready (emit e s) = antenna_ready s"
  "antenna_ready (s\<lparr>JointTelemetryMap := m\<rparr>) = antenna_ready s"
  "antenna_ready (handle_overtorque joint effort s) = antenna_ready s"
  by (simp_all add: antenna_ready_def emit_def handle_overtorque_def Let_def)

lemma joint_states_entry_ready:
  assumes "antenna_ready s"
  shows "joint_states_entry msg clock i s = Inl IndexOutOfBounds \<or>
         (\<exists>s'. joint_states_entry msg clock i s = Inr s' \<and> antenna_ready s')"
proof (cases "i < length (msg_name msg)")
  case False
  then show ?thesis by (simp add: joint_states_entry_def at_index_def)
next
  case True
  show ?thesis
  proof (cases "map_of JointMap (msg_name msg ! i)")
    case None
    with True assms show ?thesis by (simp add: joint_states_entry_def at_index_def)
  next
    case (Some joint)
    show ?thesis
    proof (cases "i < length (msg_position msg) \<and> i < length (msg_velocity msg)
        \<and> i < length (msg_effort msg)")
      case False
      with True Some show ?thesis by (auto simp: joint_states_entry_def at_index_def)
    next
      case inb: True
      from managePanTilt_ready [OF assms]
      obtain sp where sp: "managePanTilt Op_PanAntenna (msg_position msg ! i) (msg_velocity msg ! i)
          (m_currentPan s) (m_goalPan s) (m_panStart s) (clock i) s = Inr sp" "antenna_ready sp"
        by blast
      from managePanTilt_ready [OF assms]
      obtain st where st: "managePanTilt Op_TiltAntenna (msg_position msg ! i) (msg_velocity msg ! i)
          (m_currentTilt s) (m_goalTilt s) (m_tiltStart s) (clock i) s = Inr st" "antenna_ready st"
        by blast
      from True Some inb sp st assms show ?thesis
        by (simp add: joint_states_entry_def at_index_def handle_joint_fault_def Let_def)
    qed
  qed
qed

lemma for_each_out_of_bounds:
  assumes "\<And>x s. antenna_ready s \<Longrightarrow>
      body x s = Inl IndexOutOfBounds \<or> (\<exists>s'. body x s = Inr s' \<and> antenna_ready s')"
    and "\<And>s. body n s = Inl IndexOutOfBounds"
    and "n \<in> set xs" and "antenna_ready s"
  shows "for_each body xs s = Inl IndexOutOfBounds"
  using assms(3,4)
proof (induction xs arbitrary: s)
  case Nil
  then show ?case by simp
next
  case (Cons x xs)
  show ?case
  proof (cases "x = n")
    case True
    then show ?thesis by (simp add: assms(2))
  next
    case False
    with Cons.prems have n: "n \<in> set xs" by simp
    from assms(1) [OF Cons.prems(2), of x] show ?thesis
    proof
      assume "body x s = Inl IndexOutOfBounds"
      then show ?thesis by simp
    next
      assume "\<exists>s'. body x s = Inr s' \<and> antenna_ready s'"
      then obtain s' where "body x s = Inr s'" "antenna_ready s'" by blast
      with Cons.IH [OF n] show ?thesis by simp
    qed
  qed
qed

lemma jointStatesCallback_short:
  assumes "length (msg_name msg) < JointMap_size" and "antenna_ready s"
  shows "jointStatesCallback msg clock s = Inl IndexOutOfBounds"
  unfolding jointStatesCallback_def
proof (rule for_each_out_of_bounds [where n = "length (msg_name msg)"])
  show "joint_states_entry msg clock (length (msg_name msg)) s' = Inl IndexOutOfBounds" for s'
    by (simp add: joint_states_entry_def at_index_def)
  show "length (msg_name msg) \<in> set [0..<JointMap_size]" using assms(1) by simp
  show "antenna_ready s" by (rule assms(2))
  show "joint_states_entry msg clock x s' = Inl IndexOutOfBounds \<or>
      (\<exists>s''. joint_states_entry msg clock x s' = Inr s'' \<and> antenna_ready s'')"
    if "antenna_ready s'" for x s'
    by (rule joint_states_entry_ready [OF that])
qed

lemma managePanTilt_telemetry:
  assumes "managePanTilt opname position velocity current goal start now s = Inr s1"
  shows "JointTelemetryMap s1 = JointTelemetryMap s"
proof -
  from assms obtain r where r: "Running s opname = Some r"
    by (cases "Running s opname") (auto simp: managePanTilt_def operationRunning_def)
  from assms show ?thesis
    unfolding managePanTilt_unfold [OF r] mark_operation_finished_eq [OF r]
    by (auto simp: emit_def split: if_splits)
qed

lemma handle_overtorque_telemetry [simp]:
  "JointTelemetryMap (handle_overtorque joint effort s) = JointTelemetryMap s"
  by (simp add: handle_overtorque_def Let_def)

lemma JointTelemetryMap_emit [simp]: "JointTelemetryMap (emit e s) = JointTelemetryMap s"
  by (simp add: emit_def)

lemma joint_states_entry_joint:
  assumes "i < length (msg_name msg)" and "map_of JointMap (msg_name msg ! i) = Some joint"
    and "i < length (msg_position msg)" and "i < length (msg_velocity msg)"
    and "i < length (msg_effort msg)"
  shows "joint_states_entry msg clock i s =
     and_then
       (if joint = antenna_pan then
          managePanTilt Op_PanAntenna (msg_position msg ! i) (msg_velocity msg ! i)
            (m_currentPan s) (m_goalPan s) (m_panStart s) (clock i) s
        else if joint = antenna_tilt then
          managePanTilt Op_TiltAntenna (msg_position msg ! i) (msg_velocity msg ! i)
            (m_currentTilt s) (m_goalTilt s) (m_tiltStart s) (clock i) s
        else Inr s)
       (\<lambda>s1. Inr (handle_overtorque joint (msg_effort msg ! i)
          (s1\<lparr>JointTelemetryMap := (JointTelemetryMap s1)
                 (joint \<mapsto> \<lparr>jt_position = msg_position msg ! i, jt_velocity = msg_velocity msg ! i,
                            jt_effort = msg_effort msg ! i\<rparr>),
               events := events s1 @
                 [Publish (plexilName (JointPropMap joint) @ ''Position'') (D (msg_position msg ! i)),
                  Publish (plexilName (JointPropMap joint) @ ''Velocity'') (D (msg_velocity msg ! i)),
                  Publish (plexilName (JointPropMap joint) @ ''Effort'') (D (msg_effort msg ! i))]\<rparr>)))"
  using assms
  by (simp add: joint_states_entry_def at_index_def handle_joint_fault_def Let_def emit_def)

lemma joint_states_entry_short:
  assumes "i < length (msg_name msg)" and "map_of JointMap (msg_name msg ! i) = Some joint"
    and "\<not> (i < length (msg_position msg) \<and> i < length (msg_velocity msg) \<and> i < length (msg_effort msg))"
  shows "joint_states_entry msg clock i s = Inl IndexOutOfBounds"
  using assms by (auto simp: joint_states_entry_def at_index_def)

lemma joint_states_entry_cases:
  assumes "joint_states_entry msg clock i s = Inr s'"
  obtains "i < length (msg_name msg)" "map_of JointMap (msg_name msg ! i) = None"
      "s' = emit (ROS ERROR ''jointStatesCallback: unsupported joint %s'' [S (msg_name msg ! i)]) s"
  | joint where "i < length (msg_name msg)" "map_of JointMap (msg_name msg ! i) = Some joint"
      "i < length (msg_position msg)" "i < length (msg_velocity msg)" "i < length (msg_effort msg)"
proof -
  from assms have n: "i < length (msg_name msg)"
    by (auto simp: joint_states_entry_def at_index_def split: if_splits)
  show ?thesis
  proof (cases "map_of JointMap (msg_name msg ! i)")
    case None
    with assms n have "s' = emit (ROS ERROR ''jointStatesCallback: unsupported joint %s'' [S (msg_name msg ! i)]) s"
      by (simp add: joint_states_entry_def at_index_def)
    with n None show ?thesis by (rule that(1))
  next
    case (Some joint)
    have "i < length (msg_position msg) \<and> i < length (msg_velocity msg) \<and> i < length (msg_effort msg)"
    proof (rule ccontr)
      assume "\<not> ?thesis"
      from joint_states_entry_short [OF n Some this] assms show False by simp
    qed
    with n Some show ?thesis by (intro that(2)) simp_all
  qed
qed

lemma joint_states_entry_telemetry:
  assumes "joint_states_entry msg clock i s = Inr s'"
  shows "map_of JointMap (msg_name msg ! i) = Some joint \<Longrightarrow>
           JointTelemetryMap s' joint =
             Some \<lparr>jt_position = msg_position msg ! i, jt_velocity = msg_velocity msg ! i,
                   jt_effort = msg_effort msg ! i\<rparr>"
    and "map_of JointMap (msg_name msg ! i) \<noteq> Some joint \<Longrightarrow>
           JointTelemetryMap s' joint = JointTelemetryMap s joint"
proof -
  show "JointTelemetryMap s' joint =
      Some \<lparr>jt_position = msg_position msg ! i, jt_velocity = msg_velocity msg ! i,
            jt_effort = msg_effort msg ! i\<rparr>"
    if j: "map_of JointMap (msg_name msg ! i) = Some joint"
    using assms
  proof (cases rule: joint_states_entry_cases)
    case 1
    with j show ?thesis by simp
  next
    case (2 joint')
    with j have [simp]: "joint' = joint" by simp
    from assms show ?thesis
      unfolding joint_states_entry_joint [OF 2]
      by (auto simp: and_then_eq_Inr)
  qed
  show "JointTelemetryMap s' joint = JointTelemetryMap s joint"
    if j: "map_of JointMap (msg_name msg ! i) \<noteq> Some joint"
    using assms
  proof (cases rule: joint_states_entry_cases)
    case 1
    then show ?thesis by simp
  next
    case (2 joint')
    with j have ne: "joint' \<noteq> joint" by simp
    from assms obtain s1 where
      a: "(if joint' = antenna_pan then
          managePanTilt Op_PanAntenna (msg_position msg ! i) (msg_velocity msg ! i)
            (m_currentPan s) (m_goalPan s) (m_panStart s) (clock i) s
        else if joint' = antenna_tilt then
          managePanTilt Op_TiltAntenna (msg_position msg ! i) (msg_velocity msg ! i)
            (m_currentTilt s) (m_goalTilt s) (m_tiltStart s) (clock i) s
        else Inr s) = Inr s1"
      and b: "JointTelemetryMap s' joint = JointTelemetryMap s1 joint"
      unfolding joint_states_entry_joint [OF 2]
      using ne by (auto simp: and_then_eq_Inr)
    from a have "JointTelemetryMap s1 = JointTelemetryMap s"
      by (auto split: if_splits dest: managePanTilt_telemetry)
    with b show ?thesis by simp
  qed
qed

lemma for_each_telemetry_other:
  "for_each (joint_states_entry msg clock) xs s = Inr s' \<Longrightarrow>
   \<forall>j \<in> set xs. map_of JointMap (msg_name msg ! j) \<noteq> Some joint \<Longrightarrow>
   JointTelemetryMap s' joint = JointTelemetryMap s joint"
proof (induction xs arbitrary: s)
  case Nil
  then show ?case by simp
next
  case (Cons x xs)
  from Cons.prems(1) obtain s1 where a: "joint_states_entry msg clock x s = Inr s1"
    and b: "for_each (joint_states_entry msg clock) xs s1 = Inr s'"
    by (auto simp: and_then_eq_Inr)
  from Cons.prems(2) have "map_of JointMap (msg_name msg ! x) \<noteq> Some joint" by simp
  from joint_states_entry_telemetry(2) [OF a this]
  have "JointTelemetryMap s1 joint = JointTelemetryMap s joint" .
  moreover from Cons.IH [OF b] Cons.prems(2)
  have "JointTelemetryMap s' joint = JointTelemetryMap s1 joint" by simp
  ultimately show ?case by simp
qed

lemma for_each_append:
  "for_each body (xs @ ys) s = and_then (for_each body xs s) (for_each body ys)"
proof (induction xs arbitrary: s)
  case Nil
  then show ?case by simp
next
  case (Cons x xs)
  then show ?case by (cases "body x s") simp_all
qed

lemma jointStatesCallback_telemetry:
  assumes "jointStatesCallback msg clock s = Inr s'" and "i < JointMap_size"
    and "map_of JointMap (msg_name msg ! i) = Some joint"
    and "\<forall>j. i < j \<and> j < JointMap_size \<longrightarrow> map_of JointMap (msg_name msg ! j) \<noteq> Some joint"
  shows "JointTelemetryMap s' joint =
     Some \<lparr>jt_position = msg_position msg ! i, jt_velocity = msg_velocity msg ! i,
           jt_effort = msg_effort msg ! i\<rparr>"
proof -
  from assms(2) have "[0..<JointMap_size] = [0..<i] @ [i..<JointMap_size]"
    using upt_add_eq_append [of 0 i "JointMap_size - i"] by simp
  with assms(2) have "[0..<JointMap_size] = [0..<i] @ i # [Suc i..<JointMap_size]"
    by (simp add: upt_conv_Cons)
  with assms(1) obtain s1 s2 where
    a: "joint_states_entry msg clock i s1 = Inr s2"
    and b: "for_each (joint_states_entry msg clock) [Suc i..<JointMap_size] s2 = Inr s'"
    by (auto simp: jointStatesCallback_def for_each_append and_then_eq_Inr)
  from assms(4) have "\<forall>j \<in> set [Suc i..<JointMap_size]. map_of JointMap (msg_name msg ! j) \<noteq> Some joint"
    by simp
  from for_each_telemetry_other [OF b this] joint_states_entry_telemetry(1) [OF a assms(3)]
  show ?thesis by simp
qed

lemma for_each_fails:
  assumes "\<And>s. isl (body n s)" and "n \<in> set xs"
  shows "isl (for_each body xs s)"
  using assms(2)
proof (induction xs arbitrary: s)
  case Nil
  then show ?case by simp
next
  case (Cons x xs)
  show ?case
  proof (cases "body x s")
    case (Inl e)
    then show ?thesis by simp
  next
    case (Inr s1)
    show ?thesis
    proof (cases "x = n")
      case True
      with assms(1) [of s] Inr show ?thesis by simp
    next
      case False
      with Cons.prems have "n \<in> set xs" by simp
      from Cons.IH [OF this] Inr show ?thesis by simp
    qed
  qed
qed

lemma jointStatesCallback_fails:
  assumes "length (msg_name msg) < JointMap_size"
  shows "isl (jointStatesCallback msg clock s)"
  unfolding jointStatesCallback_def
proof (rule for_each_fails [where n = "length (msg_name msg)"])
  show "isl (joint_states_entry msg clock (length (msg_name msg)) s')" for s'
    by (simp add: joint_states_entry_def at_index_def)
  show "length (msg_name msg) \<in> set [0..<JointMap_size]" using assms by simp
qed

lemma joint_states_entry_returns:
  assumes "antenna_ready s" and "i < length (msg_name msg)" and "i < length (msg_position msg)"
    and "i < length (msg_velocity msg)" and "i < length (msg_effort msg)"
  shows "\<exists>s'. joint_states_entry msg clock i s = Inr s' \<and> antenna_ready s'"
  using joint_states_entry_ready [OF assms(1), of msg clock i]
proof
  assume a: "joint_states_entry msg clock i s = Inl IndexOutOfBounds"
  show ?thesis
  proof (cases "map_of JointMap (msg_name msg ! i)")
    case None
    with a assms(2) show ?thesis by (simp add: joint_states_entry_def at_index_def)
  next
    case (Some joint)
    from managePanTilt_ready [OF assms(1)]
    obtain sp where sp: "managePanTilt Op_PanAntenna (msg_position msg ! i) (msg_velocity msg ! i)
        (m_currentPan s) (m_goalPan s) (m_panStart s) (clock i) s = Inr sp"
      by blast
    from managePanTilt_ready [OF assms(1)]
    obtain st where st: "managePanTilt Op_TiltAntenna (msg_position msg ! i) (msg_velocity msg ! i)
        (m_currentTilt s) (m_goalTilt s) (m_tiltStart s) (clock i) s = Inr st"
      by blast
    from a sp st show ?thesis
      unfolding joint_states_entry_joint [OF assms(2) Some assms(3,4,5)]
      by (simp split: if_splits)
  qed
qed

lemma for_each_returns:
  assumes "\<And>x s. x \<in> set xs \<Longrightarrow> antenna_ready s \<Longrightarrow> \<exists>s'. body x s = Inr s' \<and> antenna_ready s'"
    and "antenna_ready s"
  shows "\<exists>s'. for_each body xs s = Inr s' \<and> antenna_ready s'"
  using assms
proof (induction xs arbitrary: s)
  case Nil
  then show ?case by simp
next
  case (Cons x xs)
  from Cons.prems(1) [of x s] Cons.prems(2)
  obtain s1 where a: "body x s = Inr s1" "antenna_ready s1" by auto
  have "\<exists>s'. for_each body xs s1 = Inr s' \<and> antenna_ready s'"
    by (rule Cons.IH) (auto intro: Cons.prems(1) a(2))
  with a show ?case by simp
qed

lemma jointStatesCallback_returns:
  assumes "antenna_ready s" and "JointMap_size \<le> length (msg_name msg)"
    and "JointMap_size \<le> length (msg_position msg)"
    and "JointMap_size \<le> length (msg_velocity msg)" and "JointMap_size \<le> length (msg_effort msg)"
  shows "\<exists>s'. jointStatesCallback msg clock s = Inr s' \<and> antenna_ready s'"
  unfolding jointStatesCallback_def
proof (rule for_each_returns [OF _ assms(1)])
  fix x s1
  assume "x \<in> set [0..<JointMap_size]" and r: "antenna_ready s1"
  with assms(2-5) have "x < length (msg_name msg)" "x < length (msg_position msg)"
    "x < length (msg_velocity msg)" "x < length (msg_effort msg)" by simp_all
  from joint_states_entry_returns [OF r this]
  show "\<exists>s'. joint_states_entry msg clock x s1 = Inr s' \<and> antenna_ready s'" .
qed

lemma upt_0_9: "[0..<9] = [0, 1, 2, 3, 4, 5, 6, 7, 8]"
  by (simp add: upt_rec)

lemma antenna_ready_state3: "antenna_ready state3"
  by (simp add: antenna_ready_def state3_fields)

lemma unsupported_wheel:
  "i < 9 \<Longrightarrow> joint_states_entry unknown_then_pan clock i s =
     Inr (emit (ROS ERROR ''jointStatesCallback: unsupported joint %s'' [S ''wheel'']) s)"
  by (simp add: joint_states_entry_def at_index_def unknown_then_pan_def nth_append JointMap_def)

text \<open>
  Claim C10, \<^verbatim>\<open>jointStatesCallback\<close>, as it holds.  The loop runs over the indices 0
  to 8, the size of the joint catalog, whatever the length of the message: the result is
  the one for the message cut down to its first nine entries, so entries from index 9 on
  are never processed.  Iteration \<open>i\<close> reads the name at index \<open>i\<close>; a message with fewer
  than nine names makes the callback fail (with the index out of bounds, in a state where
  the pan and tilt completion itself cannot fail).  If the name is not in the catalog the
  iteration only logs an error and reads nothing else.  If the name is a joint of the
  catalog the iteration reads position, velocity and effort at index \<open>i\<close>, which is out
  of bounds when one of the three arrays is too short; otherwise, after the pan or tilt
  completion for the two antenna joints, it stores the three values as the telemetry of
  the joint, publishes them and updates the torque limit sets with the effort.  A message
  with at least nine entries in each array is processed to the end when the pan and tilt
  completion cannot fail, and when the callback returns the telemetry of a joint holds
  the values of the last of the first nine entries that names it.
\<close>

theorem jointStatesCallback_entries:
  "JointMap_size = 9
   \<and> jointStatesCallback msg clock s =
       for_each (joint_states_entry msg clock) [0, 1, 2, 3, 4, 5, 6, 7, 8] s
   \<and> jointStatesCallback msg clock s = jointStatesCallback (first_entries 9 msg) clock s
   \<and> (length (msg_name msg) < 9 \<longrightarrow> isl (jointStatesCallback msg clock s))
   \<and> (length (msg_name msg) < 9 \<and> antenna_ready s \<longrightarrow>
        jointStatesCallback msg clock s = Inl IndexOutOfBounds)
   \<and> (length (msg_name msg) \<le> i \<longrightarrow> joint_states_entry msg clock i s = Inl IndexOutOfBounds)
   \<and> (i < length (msg_name msg) \<and> map_of JointMap (msg_name msg ! i) = None \<longrightarrow>
        joint_states_entry msg clock i s =
          Inr (emit (ROS ERROR ''jointStatesCallback: unsupported joint %s'' [S (msg_name msg ! i)]) s))
   \<and> (i < length (msg_name msg) \<and> map_of JointMap (msg_name msg ! i) = Some joint \<and>
      \<not> (i < length (msg_position msg) \<and> i < length (msg_velocity msg) \<and>
         i < length (msg_effort msg)) \<longrightarrow>
        joint_states_entry msg clock i s = Inl IndexOutOfBounds)
   \<and> (i < length (msg_name msg) \<and> map_of JointMap (msg_name msg ! i) = Some joint \<and>
      i < length (msg_position msg) \<and> i < length (msg_velocity msg) \<and>
      i < length (msg_effort msg) \<longrightarrow>
        joint_states_entry msg clock i s =
          and_then
            (if joint = antenna_pan then
               managePanTilt Op_PanAntenna (msg_position msg ! i) (msg_velocity msg ! i)
                 (m_currentPan s) (m_goalPan s) (m_panStart s) (clock i) s
             else if joint = antenna_tilt then
               managePanTilt Op_TiltAntenna (msg_position msg ! i) (msg_velocity msg ! i)
                 (m_currentTilt s) (m_goalTilt s) (m_tiltStart s) (clock i) s
             else Inr s)
            (\<lambda>s1. Inr (handle_overtorque joint (msg_effort msg ! i)
               (s1\<lparr>JointTelemetryMap := (JointTelemetryMap s1)
                      (joint \<mapsto> \<lparr>jt_position = msg_position msg ! i,
                                 jt_velocity = msg_velocity msg ! i,
                                 jt_effort = msg_effort msg ! i\<rparr>),
                    events := events s1 @
                      [Publish (plexilName (JointPropMap joint) @ ''Position'') (D (msg_position msg ! i)),
                       Publish (plexilName (JointPropMap joint) @ ''Velocity'') (D (msg_velocity msg ! i)),
                       Publish (plexilName (JointPropMap joint) @ ''Effort'') (D (msg_effort msg ! i))]\<rparr>))))
   \<and> (9 \<le> length (msg_name msg) \<and> 9 \<le> length (msg_position msg) \<and>
      9 \<le> length (msg_velocity msg) \<and> 9 \<le> length (msg_effort msg) \<and> antenna_ready s \<longrightarrow>
        (\<exists>s1. jointStatesCallback msg clock s = Inr s1))
   \<and> (jointStatesCallback msg clock s = Inr s' \<and> k < 9 \<and>
      map_of JointMap (msg_name msg ! k) = Some joint' \<and>
      (\<forall>j. k < j \<and> j < 9 \<longrightarrow> map_of JointMap (msg_name msg ! j) \<noteq> Some joint') \<longrightarrow>
        JointTelemetryMap s' joint' =
          Some \<lparr>jt_position = msg_position msg ! k, jt_velocity = msg_velocity msg ! k,
                jt_effort = msg_effort msg ! k\<rparr>)"
proof -
  have loop: "jointStatesCallback msg clock s =
      for_each (joint_states_entry msg clock) [0, 1, 2, 3, 4, 5, 6, 7, 8] s"
    by (simp only: jointStatesCallback_def JointMap_size_9 upt_0_9)
  have cut: "jointStatesCallback msg clock s = jointStatesCallback (first_entries 9 msg) clock s"
    using jointStatesCallback_first [of msg clock s] by (simp add: JointMap_size_9)
  have fails: "isl (jointStatesCallback msg clock s)" if "length (msg_name msg) < 9"
    using that jointStatesCallback_fails [of msg clock s] by (simp add: JointMap_size_9)
  have short: "jointStatesCallback msg clock s = Inl IndexOutOfBounds"
    if "length (msg_name msg) < 9 \<and> antenna_ready s"
    using that jointStatesCallback_short [of msg s clock] by (simp add: JointMap_size_9)
  have beyond: "joint_states_entry msg clock i s = Inl IndexOutOfBounds"
    if "length (msg_name msg) \<le> i"
    using that by (simp add: joint_states_entry_def at_index_def)
  have unknown: "joint_states_entry msg clock i s =
      Inr (emit (ROS ERROR ''jointStatesCallback: unsupported joint %s'' [S (msg_name msg ! i)]) s)"
    if "i < length (msg_name msg) \<and> map_of JointMap (msg_name msg ! i) = None"
    using that by (simp add: joint_states_entry_def at_index_def)
  have missing: "joint_states_entry msg clock i s = Inl IndexOutOfBounds"
    if "i < length (msg_name msg) \<and> map_of JointMap (msg_name msg ! i) = Some joint \<and>
      \<not> (i < length (msg_position msg) \<and> i < length (msg_velocity msg) \<and>
         i < length (msg_effort msg))"
    using that joint_states_entry_short [of i msg joint clock s] by blast
  note known = joint_states_entry_joint [of i msg joint clock s]
  have returns: "\<exists>s1. jointStatesCallback msg clock s = Inr s1"
    if "9 \<le> length (msg_name msg) \<and> 9 \<le> length (msg_position msg) \<and>
      9 \<le> length (msg_velocity msg) \<and> 9 \<le> length (msg_effort msg) \<and> antenna_ready s"
    using that jointStatesCallback_returns [of s msg clock] by (auto simp: JointMap_size_9)
  have stored: "JointTelemetryMap s' joint' =
      Some \<lparr>jt_position = msg_position msg ! k, jt_velocity = msg_velocity msg ! k,
            jt_effort = msg_effort msg ! k\<rparr>"
    if "jointStatesCallback msg clock s = Inr s' \<and> k < 9 \<and>
      map_of JointMap (msg_name msg ! k) = Some joint' \<and>
      (\<forall>j. k < j \<and> j < 9 \<longrightarrow> map_of JointMap (msg_name msg ! j) \<noteq> Some joint')"
    using that jointStatesCallback_telemetry [of msg clock s s' k joint']
    by (simp add: JointMap_size_9)
  from JointMap_size_9 loop cut fails short beyond unknown missing known returns stored
  show ?thesis by blast
qed

text \<open>
  Nine names that are not in the catalog, with empty position, velocity and effort
  arrays: the callback returns with nine error logs, so it has read no entry of the three
  arrays.
\<close>

theorem unknown_names_counterexample:
  "length (msg_name nine_wheels) = 9 \<and> msg_position nine_wheels = [] \<and>
   msg_velocity nine_wheels = [] \<and> msg_effort nine_wheels = [] \<and>
   jointStatesCallback nine_wheels clock0 state3 =
     Inr (state3\<lparr>events := replicate 9
            (ROS ERROR ''jointStatesCallback: unsupported joint %s'' [S ''wheel''])\<rparr>)"
proof -
  have w: "joint_states_entry nine_wheels clock i s =
      Inr (emit (ROS ERROR ''jointStatesCallback: unsupported joint %s'' [S ''wheel'']) s)"
    if "i < 9" for i clock s
    using that by (simp add: joint_states_entry_def at_index_def nine_wheels_def JointMap_def)
  show ?thesis
    by (simp add: jointStatesCallback_def JointMap_size_9 upt_0_9 w emit_def state3_fields
        numeral_eq_Suc)
       (simp add: nine_wheels_def)
qed

lemma state3_telemetry:
  "JointTelemetryMap state3 = Map.empty" "JointsAtSoftTorqueLimit state3 = {}"
  "JointsAtHardTorqueLimit state3 = {}"
  by (simp_all add: state3_def state2_def state0_def setCommandStatusCallback_def initial_state_def)

theorem jointStatesCallback_entries_witness:
  "length (msg_name short_batch) < 9 \<and> antenna_ready state3 \<and>
   isl (jointStatesCallback short_batch clock0 state0) \<and>
   jointStatesCallback short_batch clock0 state3 = Inl IndexOutOfBounds \<and>
   joint_states_entry short_batch clock0 2 state3 = Inl IndexOutOfBounds \<and>
   (9::nat) < length (msg_name unknown_then_pan) \<and> msg_name unknown_then_pan ! 9 = ''j_ant_pan'' \<and>
   map_of JointMap (msg_name unknown_then_pan ! 0) = None \<and>
   joint_states_entry unknown_then_pan clock0 0 state3 =
     Inr (emit (ROS ERROR ''jointStatesCallback: unsupported joint %s'' [S ''wheel'']) state3) \<and>
   jointStatesCallback unknown_then_pan clock0 state3 =
     Inr (state3\<lparr>events := replicate 9
            (ROS ERROR ''jointStatesCallback: unsupported joint %s'' [S ''wheel''])\<rparr>) \<and>
   map_of JointMap (msg_name no_effort ! 0) = Some grinder \<and> msg_effort no_effort = [] \<and>
   joint_states_entry no_effort clock0 0 state3 = Inl IndexOutOfBounds \<and>
   map_of JointMap (msg_name full_batch ! 2) = Some proximal_pitch \<and>
   joint_states_entry full_batch clock0 2 state3 =
     Inr (state3\<lparr>JointsAtHardTorqueLimit := {''ProximalPitch''},
                 JointTelemetryMap := [proximal_pitch \<mapsto>
                   \<lparr>jt_position = 3, jt_velocity = 0, jt_effort = 85\<rparr>],
                 events := [Publish ''ProximalPitchPosition'' (D 3),
                            Publish ''ProximalPitchVelocity'' (D 0),
                            Publish ''ProximalPitchEffort'' (D 85)]\<rparr>) \<and>
   joint_telemetry grinder (jointStatesCallback full_batch clock0 state3) =
     Inr (Some \<lparr>jt_position = 9, jt_velocity = 0, jt_effort = 35\<rparr>) \<and>
   joint_telemetry antenna_pan (jointStatesCallback full_batch clock0 state3) =
     Inr (Some \<lparr>jt_position = 7, jt_velocity = 0, jt_effort = 0\<rparr>)"
proof -
  have a: "length (msg_name short_batch) < 9 \<and> antenna_ready state3"
    by (simp add: short_batch_def antenna_ready_state3)
  have b: "0 < length (msg_name unknown_then_pan) \<and> map_of JointMap (msg_name unknown_then_pan ! 0) = None"
    by (simp add: unknown_then_pan_def JointMap_def nth_append)
  have c: "(9::nat) < length (msg_name unknown_then_pan) \<and> msg_name unknown_then_pan ! 9 = ''j_ant_pan''"
    by (simp add: unknown_then_pan_def nth_append)
  have d: "jointStatesCallback unknown_then_pan clock0 state3 =
     Inr (state3\<lparr>events := replicate 9
            (ROS ERROR ''jointStatesCallback: unsupported joint %s'' [S ''wheel''])\<rparr>)"
    by (simp add: jointStatesCallback_def JointMap_size_9 upt_0_9 unsupported_wheel emit_def
        state3_fields numeral_eq_Suc)
  have n: "msg_name unknown_then_pan ! 0 = ''wheel''"
    by (simp add: unknown_then_pan_def nth_append)
  have e: "0 < length (msg_name no_effort) \<and> map_of JointMap (msg_name no_effort ! 0) = Some grinder \<and>
      \<not> (0 < length (msg_position no_effort) \<and> 0 < length (msg_velocity no_effort) \<and>
         0 < length (msg_effort no_effort))"
    "msg_effort no_effort = []"
    by (simp_all add: no_effort_def JointMap_def)
  have f: "2 < length (msg_name full_batch) \<and>
      map_of JointMap (msg_name full_batch ! 2) = Some proximal_pitch \<and>
      2 < length (msg_position full_batch) \<and> 2 < length (msg_velocity full_batch) \<and>
      2 < length (msg_effort full_batch)"
    "msg_position full_batch ! 2 = 3" "msg_velocity full_batch ! 2 = 0" "msg_effort full_batch ! 2 = 85"
    by (simp_all add: full_batch_def JointMap_def)
  have g: "9 \<le> length (msg_name full_batch) \<and> 9 \<le> length (msg_position full_batch) \<and>
      9 \<le> length (msg_velocity full_batch) \<and> 9 \<le> length (msg_effort full_batch) \<and>
      antenna_ready state3"
    by (simp add: full_batch_def antenna_ready_state3)
  have h: "(8::nat) < 9 \<and> map_of JointMap (msg_name full_batch ! 8) = Some grinder \<and>
      (\<forall>j. 8 < j \<and> j < 9 \<longrightarrow> map_of JointMap (msg_name full_batch ! j) \<noteq> Some grinder)"
    "msg_position full_batch ! 8 = 9" "msg_velocity full_batch ! 8 = 0" "msg_effort full_batch ! 8 = 35"
    by (simp_all add: full_batch_def JointMap_def)
  have later: "j = 7 \<or> j = 8" if "6 < j \<and> j < 9" for j :: nat using that by arith
  have no_pan: "map_of JointMap (msg_name full_batch ! j) \<noteq> Some antenna_pan"
    if "6 < j \<and> j < 9" for j
    using later [OF that] by (elim disjE) (simp_all add: full_batch_def JointMap_def)
  have p: "(6::nat) < 9 \<and> map_of JointMap (msg_name full_batch ! 6) = Some antenna_pan \<and>
      (\<forall>j. 6 < j \<and> j < 9 \<longrightarrow> map_of JointMap (msg_name full_batch ! j) \<noteq> Some antenna_pan)"
    "msg_position full_batch ! 6 = 7" "msg_velocity full_batch ! 6 = 0" "msg_effort full_batch ! 6 = 0"
    using no_pan by (simp_all add: full_batch_def JointMap_def)
  note t1 = jointStatesCallback_entries [of short_batch clock0 state3 2 shoulder_yaw state3 0 shoulder_yaw]
  note t0 = jointStatesCallback_entries [of short_batch clock0 state0 2 shoulder_yaw state0 0 shoulder_yaw]
  note t2 = jointStatesCallback_entries [of unknown_then_pan clock0 state3 0 grinder state3 0 grinder]
  note t3 = jointStatesCallback_entries [of no_effort clock0 state3 0 grinder state3 0 grinder]
  from t1 a have r1: "jointStatesCallback short_batch clock0 state3 = Inl IndexOutOfBounds" by blast
  from t0 a have r0: "isl (jointStatesCallback short_batch clock0 state0)" by blast
  from t1 have r2: "joint_states_entry short_batch clock0 2 state3 = Inl IndexOutOfBounds"
    by (simp add: short_batch_def)
  from t2 b n have r3: "joint_states_entry unknown_then_pan clock0 0 state3 =
     Inr (emit (ROS ERROR ''jointStatesCallback: unsupported joint %s'' [S ''wheel'']) state3)"
    by simp
  from t3 e(1) have r4: "joint_states_entry no_effort clock0 0 state3 = Inl IndexOutOfBounds"
    by blast
  from jointStatesCallback_entries [of full_batch clock0 state3 2 proximal_pitch state3 0 shoulder_yaw] f(1)
  have "joint_states_entry full_batch clock0 2 state3 =
      Inr (handle_overtorque proximal_pitch (msg_effort full_batch ! 2)
        (state3\<lparr>JointTelemetryMap := (JointTelemetryMap state3)
                 (proximal_pitch \<mapsto> \<lparr>jt_position = msg_position full_batch ! 2,
                                     jt_velocity = msg_velocity full_batch ! 2,
                                     jt_effort = msg_effort full_batch ! 2\<rparr>),
               events := events state3 @
                 [Publish (plexilName (JointPropMap proximal_pitch) @ ''Position'') (D (msg_position full_batch ! 2)),
                  Publish (plexilName (JointPropMap proximal_pitch) @ ''Velocity'') (D (msg_velocity full_batch ! 2)),
                  Publish (plexilName (JointPropMap proximal_pitch) @ ''Effort'') (D (msg_effort full_batch ! 2))]\<rparr>))"
    by simp
  then have r5: "joint_states_entry full_batch clock0 2 state3 =
     Inr (state3\<lparr>JointsAtHardTorqueLimit := {''ProximalPitch''},
                 JointTelemetryMap := [proximal_pitch \<mapsto>
                   \<lparr>jt_position = 3, jt_velocity = 0, jt_effort = 85\<rparr>],
                 events := [Publish ''ProximalPitchPosition'' (D 3),
                            Publish ''ProximalPitchVelocity'' (D 0),
                            Publish ''ProximalPitchEffort'' (D 85)]\<rparr>)"
    by (simp add: f(2-4) handle_overtorque_def Let_def state3_telemetry state3_fields)
  from jointStatesCallback_entries [of full_batch clock0 state3 0 shoulder_yaw state3 0 shoulder_yaw] g
  obtain s' where s': "jointStatesCallback full_batch clock0 state3 = Inr s'" by blast
  from jointStatesCallback_entries [of full_batch clock0 state3 0 shoulder_yaw s' 8 grinder] s' h
  have r6: "JointTelemetryMap s' grinder = Some \<lparr>jt_position = 9, jt_velocity = 0, jt_effort = 35\<rparr>"
    by simp
  from jointStatesCallback_entries [of full_batch clock0 state3 0 shoulder_yaw s' 6 antenna_pan] s' p
  have r7: "JointTelemetryMap s' antenna_pan = Some \<lparr>jt_position = 7, jt_velocity = 0, jt_effort = 0\<rparr>"
    by simp
  from r6 r7 s' have r8:
    "joint_telemetry grinder (jointStatesCallback full_batch clock0 state3) =
       Inr (Some \<lparr>jt_position = 9, jt_velocity = 0, jt_effort = 35\<rparr>)"
    "joint_telemetry antenna_pan (jointStatesCallback full_batch clock0 state3) =
       Inr (Some \<lparr>jt_position = 7, jt_velocity = 0, jt_effort = 0\<rparr>)"
    by (simp_all add: joint_telemetry_def)
  from a b c d e f(1) r0 r1 r2 r3 r4 r5 r8 show ?thesis by blast
qed

section \<open>Runs: status callbacks and stuck operations\<close>

lemma callbacks_for_simps [simp]:
  "callbacks_for cid [] = 0"
  "callbacks_for cid (es @ es') = callbacks_for cid es + callbacks_for cid es'"
  "callbacks_for cid (ROS sev fmt args # es) = callbacks_for cid es"
  "callbacks_for cid (Publish n v # es) = callbacks_for cid es"
  "callbacks_for cid (PublishOp n v opname # es) = callbacks_for cid es"
  "callbacks_for cid (StatusCallback c ok # es) = (if c = cid then 1 else 0) + callbacks_for cid es"
  "callbacks_for cid (SendGoal opname g # es) = callbacks_for cid es"
  "callbacks_for cid (TopicPublish topic v # es) = callbacks_for cid es"
  by (simp_all add: callbacks_for_def is_callback_for_def)

lemma count_update:
  "distinct xs \<Longrightarrow> a \<in> set xs \<Longrightarrow>
   length (filter (\<lambda>n. (f(a := y)) n = c) xs) + (if f a = c then 1 else 0) =
   length (filter (\<lambda>n. f n = c) xs) + (if y = c then 1 else (0::nat))"
proof (induction xs)
  case Nil
  then show ?case by simp
next
  case (Cons x xs)
  show ?case
  proof (cases "x = a")
    case True
    with Cons.prems have "a \<notin> set xs" by simp
    then have "filter (\<lambda>n. (f(a := y)) n = c) xs = filter (\<lambda>n. f n = c) xs"
      by (intro filter_cong) auto
    with True show ?thesis by simp
  next
    case False
    with Cons show ?thesis by simp
  qed
qed

lemma distinct_LanderOpNames: "distinct LanderOpNames"
  by (simp add: LanderOpNames_def)

lemma holders_update:
  assumes "opname \<in> set LanderOpNames" and "Running s1 = (Running s)(opname \<mapsto> v)"
  shows "holders cid s1 + (if Running s opname = Some cid then 1 else 0) =
         holders cid s + (if v = cid then 1 else 0)"
  using count_update [OF distinct_LanderOpNames assms(1), of "Running s" "Some v" "Some cid"]
  by (simp add: holders_def assms(2))

lemma holders_same: "Running s1 = Running s \<Longrightarrow> holders cid s1 = holders cid s"
  by (simp add: holders_def)

lemma thread_op_names: "thread_op t \<in> set LanderOpNames"
  by (cases t) (simp_all add: LanderOpNames_def)

lemma thread_op_not_sampled:
  "thread_op t \<noteq> Op_PanAntenna" "thread_op t \<noteq> Op_TiltAntenna" "thread_op t \<noteq> Op_TakePicture"
  by (cases t; simp)+

lemma consistentD:
  "consistent s \<Longrightarrow> t \<in> set (threads s) \<Longrightarrow>
   Running s (thread_op t) = Some (thread_id t) \<and> thread_id t \<noteq> IDLE_ID"
  by (auto simp: consistent_def list_all_iff)

lemma consistent_same:
  "consistent s \<Longrightarrow> Running s1 = Running s \<Longrightarrow> threads s1 = threads s \<Longrightarrow> consistent s1"
  by (simp add: consistent_def)

lemma consistent_idle_no_thread:
  "consistent s \<Longrightarrow> Running s opname = Some IDLE_ID \<Longrightarrow> opname \<notin> thread_op ` set (threads s)"
  by (auto dest: consistentD)

lemma consistent_admit:
  assumes "consistent s" and "Running s opname = Some IDLE_ID"
    and "Running s1 = (Running s)(opname \<mapsto> c)" and "threads s1 = threads s"
  shows "consistent s1"
proof -
  from consistent_idle_no_thread [OF assms(1,2)]
  have "\<forall>t \<in> set (threads s). thread_op t \<noteq> opname" by auto
  with assms show ?thesis by (auto simp: consistent_def list_all_iff)
qed

lemma consistent_admit_thread:
  assumes "consistent s" and "Running s opname = Some IDLE_ID"
    and "Running s1 = (Running s)(opname \<mapsto> c)" and "threads s1 = threads s @ [t]"
    and "thread_op t = opname" and "thread_id t = c" and "c \<noteq> IDLE_ID"
  shows "consistent s1"
proof -
  from consistent_idle_no_thread [OF assms(1,2)]
  have "\<forall>t \<in> set (threads s). thread_op t \<noteq> opname" by auto
  with assms show ?thesis by (auto simp: consistent_def list_all_iff)
qed

lemma consistent_finish:
  assumes "consistent s" and "Running s1 = (Running s)(opname \<mapsto> v)"
    and "threads s1 = threads s" and "opname \<notin> thread_op ` set (threads s)"
  shows "consistent s1"
  using assms by (auto simp: consistent_def list_all_iff)

lemma distinct_map_remove1:
  "distinct (map f xs) \<Longrightarrow> x \<in> set xs \<Longrightarrow>
   distinct (map f (remove1 x xs)) \<and> f x \<notin> f ` set (remove1 x xs)"
proof (induction xs)
  case Nil
  then show ?case by simp
next
  case (Cons y ys)
  show ?case
  proof (cases "x = y")
    case True
    with Cons.prems show ?thesis by simp
  next
    case False
    with Cons.prems have "x \<in> set ys" "distinct (map f ys)" "f y \<notin> f ` set ys" by auto
    moreover have "f ` set (remove1 x ys) \<subseteq> f ` set ys"
      using set_remove1_subset [of x ys] by blast
    moreover from \<open>x \<in> set ys\<close> \<open>f y \<notin> f ` set ys\<close> have "f x \<noteq> f y" by (metis image_eqI)
    ultimately show ?thesis using Cons.IH False by auto
  qed
qed

lemma consistent_remove:
  assumes "consistent s" and "t \<in> set (threads s)"
  shows "consistent (s\<lparr>threads := remove1 t (threads s)\<rparr>)"
    and "thread_op t \<notin> thread_op ` set (remove1 t (threads s))"
proof -
  from assms(1) have d: "distinct (map thread_op (threads s))" by (simp add: consistent_def)
  note r = distinct_map_remove1 [OF d assms(2)]
  from r show "thread_op t \<notin> thread_op ` set (remove1 t (threads s))" by simp
  from assms(1) r show "consistent (s\<lparr>threads := remove1 t (threads s)\<rparr>)"
    by (auto simp: consistent_def list_all_iff dest: notin_set_remove1)
qed

lemma tracks_refl: "tracks cid opname c s s 0"
  by (simp add: tracks_def)

lemma tracks_trans:
  "tracks cid opname c s s1 n \<Longrightarrow> tracks cid opname c s1 s2 m \<Longrightarrow> tracks cid opname c s s2 (n + m)"
  by (auto simp: tracks_def)

lemma tracks_neutral:
  assumes "Running s1 = Running s" and "threads s1 = threads s"
    and "callbacks_for cid (events s1) = callbacks_for cid (events s)"
  shows "tracks cid opname c s s1 0"
  using assms by (simp add: tracks_def consistent_def account_def holders_def stuck_def)

lemma tracks_emit:
  "\<not> is_callback_for cid e \<Longrightarrow> tracks cid opname c s (emit e s) 0"
  by (rule tracks_neutral) (simp_all add: emit_def callbacks_for_def)

lemma not_callback [simp]:
  "\<not> is_callback_for cid (ROS sev fmt args)" "\<not> is_callback_for cid (Publish n v)"
  "\<not> is_callback_for cid (PublishOp n v opname)" "\<not> is_callback_for cid (SendGoal opname g)"
  "\<not> is_callback_for cid (TopicPublish topic v)"
  by (simp_all add: is_callback_for_def)

lemma tracks_admit:
  assumes "Running s opname = Some IDLE_ID" and "opname \<in> set LanderOpNames"
    and "Running s1 = (Running s)(opname \<mapsto> v)" and "threads s1 = threads s"
    and "callbacks_for cid (events s1) = callbacks_for cid (events s)" and "cid \<noteq> IDLE_ID"
  shows "tracks cid opname0 c0 s s1 (if v = cid then 1 else 0)"
proof -
  have acc: "account cid s1 = account cid s + (if v = cid then 1 else 0)"
    using holders_update [OF assms(2,3), of cid] assms(1,5,6) by (simp add: account_def)
  have st: "stuck opname0 c0 s1" if "stuck opname0 c0 s"
  proof -
    from that assms(1) have "opname0 \<noteq> opname" by (auto simp: stuck_def)
    with that assms(3,4) show ?thesis by (simp add: stuck_def)
  qed
  have "consistent s1" if "consistent s"
    by (rule consistent_admit [OF that assms(1,3,4)])
  with acc st show ?thesis by (simp add: tracks_def)
qed

lemma tracks_finish:
  assumes "Running s opname = Some v" and "v \<noteq> IDLE_ID" and "opname \<in> set LanderOpNames"
    and "opname \<notin> thread_op ` set (threads s)"
    and "Running s1 = (Running s)(opname \<mapsto> IDLE_ID)" and "threads s1 = threads s"
    and "callbacks_for cid (events s1) = callbacks_for cid (events s) + (if v = cid then 1 else 0)"
    and "cid \<noteq> IDLE_ID" and "opname \<noteq> opname0 \<or> \<not> stuck opname0 c0 s"
  shows "tracks cid opname0 c0 s s1 0"
proof -
  have acc: "account cid s1 = account cid s"
    using holders_update [OF assms(3,5), of cid] assms(1,7,8) by (auto simp: account_def)
  have st: "stuck opname0 c0 s1" if "stuck opname0 c0 s"
    using that assms(5,6,9) by (auto simp: stuck_def)
  have "consistent s1" if "consistent s"
    by (rule consistent_finish [OF that assms(5,6,4)])
  with acc st show ?thesis by (simp add: tracks_def)
qed

lemma tracks_remove_thread:
  assumes "t \<in> set (threads s)"
  shows "tracks cid opname0 c0 s (s\<lparr>threads := remove1 t (threads s)\<rparr>) 0"
proof -
  have "stuck opname0 c0 (s\<lparr>threads := remove1 t (threads s)\<rparr>)" if "stuck opname0 c0 s"
    using that set_remove1_subset [of t "threads s"] by (auto simp: stuck_def)
  moreover have "consistent (s\<lparr>threads := remove1 t (threads s)\<rparr>)" if "consistent s"
    by (rule consistent_remove(1) [OF that assms])
  ultimately show ?thesis by (simp add: tracks_def account_def holders_def)
qed

lemma tracks_change_op:
  "tracks cid opname1 c1 s s1 n \<Longrightarrow> \<not> stuck opname0 c0 s \<Longrightarrow> tracks cid opname0 c0 s s1 n"
  by (simp add: tracks_def)

lemma not_stuck_sampled [simp]:
  "\<not> stuck Op_PanAntenna c s" "\<not> stuck Op_TiltAntenna c s" "\<not> stuck Op_TakePicture c s"
  by (simp_all add: stuck_def)

lemma mark_operation_running_Inr:
  "mark_operation_running opname v s = Inr (ok, s1) \<Longrightarrow> \<exists>r. Running s opname = Some r"
  by (cases "Running s opname") (simp_all add: mark_operation_running_def)

lemma mark_operation_finished_Inr:
  "mark_operation_finished opname v s = Inr s1 \<Longrightarrow> \<exists>r. Running s opname = Some r"
  by (cases "Running s opname") (simp_all add: mark_operation_finished_def)

lemma admit_returns_true_iff:
  "Running s opname = Some r \<Longrightarrow> admit_returns_true opname v s \<longleftrightarrow> r = IDLE_ID"
  by (simp add: admit_returns_true_def mark_operation_running_eq)

lemma mark_operation_running_tracks:
  assumes "mark_operation_running opname v s = Inr (ok, s1)" and "opname \<in> set LanderOpNames"
    and "cid \<noteq> IDLE_ID"
  shows "tracks cid opname0 c0 s s1 (if admit_returns_true opname v s \<and> v = cid then 1 else 0)"
    and "ok = admit_returns_true opname v s" and "threads s1 = threads s"
proof -
  from mark_operation_running_Inr [OF assms(1)] obtain r where r: "Running s opname = Some r" ..
  note eq = assms(1) [unfolded mark_operation_running_eq [OF r]]
  note art = admit_returns_true_iff [OF r]
  show "ok = admit_returns_true opname v s" using eq art by (auto split: if_splits)
  show "threads s1 = threads s" using eq by (auto split: if_splits)
  show "tracks cid opname0 c0 s s1 (if admit_returns_true opname v s \<and> v = cid then 1 else 0)"
  proof (cases "r = IDLE_ID")
    case True
    with eq have s1: "s1 = emit (PublishOp ''Running'' (B True) opname)
        (s\<lparr>Running := (Running s)(opname \<mapsto> v)\<rparr>)" by simp
    have "tracks cid opname0 c0 s s1 (if v = cid then 1 else 0)"
      by (rule tracks_admit [where opname = opname])
         (use r True assms(2,3) in \<open>simp_all add: s1 emit_def\<close>)
    with True art show ?thesis by simp
  next
    case False
    with eq have s1: "s1 = emit (ROS WARN ''%s already running, ignoring duplicate request.'' [S opname]) s"
      by simp
    have "tracks cid opname0 c0 s s1 0" unfolding s1 by (rule tracks_emit) simp
    with False art show ?thesis by simp
  qed
qed

lemma mark_operation_finished_tracks:
  assumes "mark_operation_finished opname v s = Inr s1" and "Running s opname = Some v"
    and "v \<noteq> IDLE_ID" and "opname \<in> set LanderOpNames"
    and "opname \<notin> thread_op ` set (threads s)" and "cid \<noteq> IDLE_ID"
    and "opname \<noteq> opname0 \<or> \<not> stuck opname0 c0 s"
  shows "tracks cid opname0 c0 s s1 0"
proof -
  note eq = assms(1) [unfolded mark_operation_finished_eq [OF assms(2)]]
  with assms(3) have s1: "s1 = s\<lparr>Running := (Running s)(opname \<mapsto> IDLE_ID),
      events := events s @ [PublishOp ''Running'' (B False) opname,
        PublishOp ''Finished'' (B True) opname, StatusCallback v True]\<rparr>"
    by (simp split: if_splits)
  show ?thesis
    by (rule tracks_finish [where opname = opname and v = v])
       (use assms in \<open>simp_all add: s1\<close>)
qed

lemma dispatch_tracks:
  assumes "dispatch opname v t s = Inr s1" and "thread_op t = opname" and "thread_id t = v"
    and "v \<noteq> IDLE_ID" and "cid \<noteq> IDLE_ID"
  shows "tracks cid opname0 c0 s s1 (if admit_returns_true opname v s \<and> v = cid then 1 else 0)"
proof -
  from assms(1) obtain ok sm where m: "mark_operation_running opname v s = Inr (ok, sm)"
    by (auto simp: dispatch_def and_then_eq_Inr)
  from mark_operation_running_Inr [OF m] obtain r where r: "Running s opname = Some r" ..
  have names: "opname \<in> set LanderOpNames" using thread_op_names [of t] assms(2) by simp
  note art = admit_returns_true_iff [OF r]
  show ?thesis
  proof (cases "r = IDLE_ID")
    case False
    with assms(1) r m have "s1 = sm" by (simp add: dispatch_def mark_operation_running_eq)
    with mark_operation_running_tracks(1) [OF m names assms(5)] show ?thesis by simp
  next
    case True
    with assms(1) r have s1: "s1 = start_thread t (emit (PublishOp ''Running'' (B True) opname)
        (s\<lparr>Running := (Running s)(opname \<mapsto> v)\<rparr>))"
      by (simp add: dispatch_def mark_operation_running_eq)
    have R: "Running s1 = (Running s)(opname \<mapsto> v)" and T: "threads s1 = threads s @ [t]"
      and E: "callbacks_for cid (events s1) = callbacks_for cid (events s)"
      by (simp_all add: s1 start_thread_def emit_def)
    have acc: "account cid s1 = account cid s + (if v = cid then 1 else 0)"
      using holders_update [OF names R, of cid] r True E assms(5) by (simp add: account_def)
    have con: "consistent s1" if "consistent s"
      by (rule consistent_admit_thread [OF that _ R T assms(2,3,4)]) (use r True in simp)
    have st: "stuck opname0 c0 s1" if "stuck opname0 c0 s"
    proof -
      from that r True have "opname0 \<noteq> opname" by (auto simp: stuck_def)
      with that R T assms(2) show ?thesis by (auto simp: stuck_def)
    qed
    from acc con st True art show ?thesis by (simp add: tracks_def)
  qed
qed

lemma topic_publish_tracks:
  "topic_publish pub v s = Inr s1 \<Longrightarrow> tracks cid opname0 c0 s s1 0"
  by (cases pub) (auto simp: topic_publish_def intro: tracks_emit)

lemma tracks_add_0: "tracks cid opname c s s1 n \<Longrightarrow> tracks cid opname c s1 s2 0 \<Longrightarrow> tracks cid opname c s s2 n"
  using tracks_trans [of cid opname c s s1 n s2 0] by simp

lemma antenna_op_tracks:
  assumes "antenna_op opname degrees pub v s = Inr s1" and "opname \<in> set LanderOpNames"
    and "cid \<noteq> IDLE_ID"
  shows "tracks cid opname0 c0 s s1 (if admit_returns_true opname v s \<and> v = cid then 1 else 0)"
proof -
  from assms(1) obtain ok sm where m: "mark_operation_running opname v s = Inr (ok, sm)"
    and rest: "\<not> ok \<longrightarrow> s1 = sm"
      "ok \<longrightarrow> topic_publish pub (D (degrees * D2R))
              (emit (ROS INFO ''Starting %s: %f degrees (%f radians)''
                       [S opname, F degrees, F (degrees * D2R)]) sm) = Inr s1"
    by (auto simp: antenna_op_def and_then_eq_Inr Let_def split: if_splits)
  note a = mark_operation_running_tracks(1) [OF m assms(2,3), of opname0 c0]
  show ?thesis
  proof (cases ok)
    case False
    with rest a show ?thesis by simp
  next
    case True
    with rest obtain e pub' v' where tp: "topic_publish pub' v' (emit e sm) = Inr s1"
      and e: "\<not> is_callback_for cid e" by auto
    have "tracks cid opname0 c0 sm s1 0"
      by (rule tracks_add_0 [OF tracks_emit [OF e] topic_publish_tracks [OF tp]])
    with a show ?thesis by (rule tracks_add_0)
  qed
qed

lemma admit_returns_true_cong:
  "Running s1 = Running s \<Longrightarrow> admit_returns_true opname v s1 = admit_returns_true opname v s"
  by (cases "Running s opname") (simp_all add: admit_returns_true_def mark_operation_running_def)

lemma panAntenna_tracks:
  assumes "panAntenna degrees v now s = Inr s1" and "cid \<noteq> IDLE_ID"
  shows "tracks cid opname0 c0 s s1 (if admit_returns_true Op_PanAntenna v s \<and> v = cid then 1 else 0)"
proof -
  let ?s2 = "s\<lparr>m_goalPan := degrees, m_panStart := now\<rparr>"
  have "tracks cid opname0 c0 s ?s2 0" by (rule tracks_neutral) simp_all
  moreover from assms(1) have "antenna_op Op_PanAntenna degrees (m_antennaPanPublisher s) v ?s2 = Inr s1"
    by (simp add: panAntenna_def Let_def)
  from antenna_op_tracks [OF this _ assms(2), of opname0 c0]
  have "tracks cid opname0 c0 ?s2 s1 (if admit_returns_true Op_PanAntenna v s \<and> v = cid then 1 else 0)"
    by (simp add: LanderOpNames_def admit_returns_true_cong [of ?s2 s])
  ultimately show ?thesis using tracks_trans by fastforce
qed

lemma tiltAntenna_tracks:
  assumes "tiltAntenna degrees v now s = Inr s1" and "cid \<noteq> IDLE_ID"
  shows "tracks cid opname0 c0 s s1 (if admit_returns_true Op_TiltAntenna v s \<and> v = cid then 1 else 0)"
proof -
  let ?s2 = "s\<lparr>m_goalTilt := degrees, m_tiltStart := now\<rparr>"
  have "tracks cid opname0 c0 s ?s2 0" by (rule tracks_neutral) simp_all
  moreover from assms(1) have "antenna_op Op_TiltAntenna degrees (m_antennaTiltPublisher s) v ?s2 = Inr s1"
    by (simp add: tiltAntenna_def Let_def)
  from antenna_op_tracks [OF this _ assms(2), of opname0 c0]
  have "tracks cid opname0 c0 ?s2 s1 (if admit_returns_true Op_TiltAntenna v s \<and> v = cid then 1 else 0)"
    by (simp add: LanderOpNames_def admit_returns_true_cong [of ?s2 s])
  ultimately show ?thesis using tracks_trans by fastforce
qed

lemma takePicture_tracks:
  assumes "takePicture v s = Inr s1" and "cid \<noteq> IDLE_ID"
  shows "tracks cid opname0 c0 s s1 (if admit_returns_true Op_TakePicture v s \<and> v = cid then 1 else 0)"
proof -
  from assms(1) obtain ok sm where m: "mark_operation_running Op_TakePicture v s = Inr (ok, sm)"
    and rest: "\<not> ok \<longrightarrow> s1 = sm"
      "ok \<longrightarrow> topic_publish
              (m_leftImageTriggerPublisher
                 (emit (ROS INFO ''Capturing stereo image using left image trigger.'' []) sm)) (B True)
              (emit (ROS INFO ''Capturing stereo image using left image trigger.'' []) sm) = Inr s1"
    by (auto simp: takePicture_def and_then_eq_Inr Let_def split: if_splits)
  have names: "Op_TakePicture \<in> set LanderOpNames" by (simp add: LanderOpNames_def)
  note a = mark_operation_running_tracks(1) [OF m names assms(2), of opname0 c0]
  show ?thesis
  proof (cases ok)
    case False
    with rest a show ?thesis by simp
  next
    case True
    with rest obtain e pub' v' where tp: "topic_publish pub' v' (emit e sm) = Inr s1"
      and e: "\<not> is_callback_for cid e" by auto
    have "tracks cid opname0 c0 sm s1 0"
      by (rule tracks_add_0 [OF tracks_emit [OF e] topic_publish_tracks [OF tp]])
    with a show ?thesis by (rule tracks_add_0)
  qed
qed

lemma finish_after_emits_tracks:
  assumes "mark_operation_finished opname v s2 = Inr s1"
    and "Running s2 = Running s" and "threads s2 = threads s"
    and "callbacks_for cid (events s2) = callbacks_for cid (events s)"
    and "Running s opname = Some v" and "v \<noteq> IDLE_ID" and "opname \<in> set LanderOpNames"
    and "opname \<notin> thread_op ` set (threads s)" and "cid \<noteq> IDLE_ID"
    and "opname \<noteq> opname0"
  shows "tracks cid opname0 c0 s s1 0"
proof -
  have "tracks cid opname0 c0 s s2 0" by (rule tracks_neutral) (fact assms)+
  moreover have "tracks cid opname0 c0 s2 s1 0"
    by (rule mark_operation_finished_tracks [OF assms(1)]) (use assms in simp_all)
  ultimately show ?thesis by (rule tracks_add_0)
qed

lemma runAction_tracks:
  assumes "runAction opname ac g v fin s = Inr s1"
    and "Running s opname = Some v" and "v \<noteq> IDLE_ID" and "opname \<in> set LanderOpNames"
    and "opname \<notin> thread_op ` set (threads s)" and "cid \<noteq> IDLE_ID"
    and "opname \<noteq> opname0"
  shows "tracks cid opname0 c0 s s1 0"
proof (cases ac)
  case False
  with assms(1) show ?thesis by (auto simp: runAction_def intro: tracks_emit)
next
  case True
  with assms(1) obtain s2 where f: "mark_operation_finished opname v s2 = Inr s1"
    and s2: "Running s2 = Running s" "threads s2 = threads s"
      "callbacks_for cid (events s2) = callbacks_for cid (events s)"
    by (cases fin) (auto simp: runAction_def Let_def emit_def)
  show ?thesis by (rule finish_after_emits_tracks [OF f s2 assms(2-7)])
qed

lemma guardedMoveAction_tracks:
  assumes "guardedMoveAction x y z dir_x dir_y dir_z search_dist v fin s = Inr s1"
    and "Running s Op_GuardedMove = Some v" and "v \<noteq> IDLE_ID"
    and "Op_GuardedMove \<notin> thread_op ` set (threads s)" and "cid \<noteq> IDLE_ID"
    and "Op_GuardedMove \<noteq> opname0"
  shows "tracks cid opname0 c0 s s1 0"
proof (cases "m_guardedMoveClient s")
  case False
  with assms(1) show ?thesis by (auto simp: guardedMoveAction_def intro: tracks_emit)
next
  case True
  with assms(1) obtain s2 where f: "mark_operation_finished Op_GuardedMove v s2 = Inr s1"
    and s2: "Running s2 = Running s" "threads s2 = threads s"
      "callbacks_for cid (events s2) = callbacks_for cid (events s)"
    by (cases fin) (auto simp: guardedMoveAction_def Let_def emit_def)
  have names: "Op_GuardedMove \<in> set LanderOpNames" by (simp add: LanderOpNames_def)
  show ?thesis by (rule finish_after_emits_tracks [OF f s2 assms(2,3) names assms(4-6)])
qed

lemma thread_body_tracks:
  assumes "thread_body t fin s = Inr s1"
    and "Running s (thread_op t) = Some (thread_id t)" and "thread_id t \<noteq> IDLE_ID"
    and "thread_op t \<notin> thread_op ` set (threads s)" and "cid \<noteq> IDLE_ID"
    and "thread_op t \<noteq> opname0"
  shows "tracks cid opname0 c0 s s1 0"
proof (cases t)
  case (GuardedMoveAction x y z dir_x dir_y dir_z search_dist v)
  with assms show ?thesis by (auto intro: guardedMoveAction_tracks)
next
  case (DigCircularAction x y depth ground_pos parallel v)
  with assms show ?thesis
    by (auto simp: digCircularAction_def LanderOpNames_def intro!: runAction_tracks)
next
  case (DigLinearAction x y depth len ground_pos v)
  with assms show ?thesis
    by (auto simp: digLinearAction_def LanderOpNames_def intro!: runAction_tracks)
next
  case (DeliverAction x y z v)
  with assms show ?thesis
    by (auto simp: deliverAction_def LanderOpNames_def intro!: runAction_tracks)
next
  case (GrindAction x y depth len parallel ground_pos v)
  with assms show ?thesis
    by (auto simp: grindAction_def LanderOpNames_def intro!: runAction_tracks)
next
  case (StowAction v)
  with assms show ?thesis
    by (auto simp: stowAction_def LanderOpNames_def intro!: runAction_tracks)
next
  case (UnstowAction v)
  with assms show ?thesis
    by (auto simp: unstowAction_def LanderOpNames_def intro!: runAction_tracks)
qed

lemma sampled_finish_tracks:
  assumes "mark_operation_finished opname v s = Inr s1" and "Running s opname = Some v"
    and "v \<noteq> IDLE_ID" and "opname \<in> {Op_PanAntenna, Op_TiltAntenna, Op_TakePicture}"
    and "cid \<noteq> IDLE_ID"
  shows "tracks cid opname0 c0 s s1 0"
proof (rule mark_operation_finished_tracks [OF assms(1,2,3) _ _ assms(5)])
  show "opname \<in> set LanderOpNames" using assms(4) by (auto simp: LanderOpNames_def)
  show "opname \<notin> thread_op ` set (threads s)" using assms(4) thread_op_not_sampled by auto
  show "opname \<noteq> opname0 \<or> \<not> stuck opname0 c0 s" using assms(4) by (auto simp: stuck_def)
qed

lemma managePanTilt_tracks:
  assumes "managePanTilt opname position velocity current goal start now s = Inr s1"
    and "opname \<in> {Op_PanAntenna, Op_TiltAntenna}" and "cid \<noteq> IDLE_ID"
  shows "tracks cid opname0 c0 s s1 0"
proof -
  from assms(1) obtain r where r: "Running s opname = Some r"
    by (cases "Running s opname") (auto simp: managePanTilt_def operationRunning_def)
  note eq = assms(1) [unfolded managePanTilt_unfold [OF r]]
  show ?thesis
  proof (cases "r \<noteq> IDLE_ID \<and> (within_tolerance current goal DegreeTolerance \<or> now > start + PanTiltTimeout)")
    case False
    with eq have "s1 = s" by (auto split: if_splits)
    then show ?thesis by (simp add: tracks_refl)
  next
    case True
    with eq obtain sf where f: "mark_operation_finished opname r s = Inr sf"
      and s1: "Running s1 = Running sf" "threads s1 = threads sf"
        "callbacks_for cid (events s1) = callbacks_for cid (events sf)"
      by (auto simp: and_then_eq_Inr emit_def split: if_splits)
    have "tracks cid opname0 c0 s sf 0"
      by (rule sampled_finish_tracks [OF f r]) (use True assms in auto)
    moreover have "tracks cid opname0 c0 sf s1 0" by (rule tracks_neutral) (fact s1)+
    ultimately show ?thesis by (rule tracks_add_0)
  qed
qed

lemma cameraCallback_tracks:
  assumes "cameraCallback s = Inr s1" and "cid \<noteq> IDLE_ID"
  shows "tracks cid opname0 c0 s s1 0"
proof -
  from assms(1) obtain r where r: "Running s Op_TakePicture = Some r"
    by (cases "Running s Op_TakePicture") (auto simp: cameraCallback_def operationRunning_def)
  show ?thesis
  proof (cases "r = IDLE_ID")
    case True
    with assms(1) r have "s1 = s" by (simp add: cameraCallback_def)
    then show ?thesis by (simp add: tracks_refl)
  next
    case False
    with assms(1) r have "mark_operation_finished Op_TakePicture r s = Inr s1"
      by (simp add: cameraCallback_def)
    from sampled_finish_tracks [OF this r False _ assms(2)] show ?thesis by simp
  qed
qed

lemma handle_overtorque_fields [simp]:
  "Running (handle_overtorque joint effort s) = Running s"
  "threads (handle_overtorque joint effort s) = threads s"
  "events (handle_overtorque joint effort s) = events s"
  by (simp_all add: handle_overtorque_def Let_def)

lemma joint_states_entry_tracks:
  assumes "joint_states_entry msg clock i s = Inr s1" and "cid \<noteq> IDLE_ID"
  shows "tracks cid opname0 c0 s s1 0"
proof -
  from assms(1) obtain ros_name where n: "at_index (msg_name msg) i = Inr ros_name"
    by (auto simp: joint_states_entry_def and_then_eq_Inr)
  show ?thesis
  proof (cases "map_of JointMap ros_name")
    case None
    with assms(1) n show ?thesis by (auto simp: joint_states_entry_def intro: tracks_emit)
  next
    case (Some joint)
    with assms(1) n obtain position velocity effort sm where
      p: "(if joint = antenna_pan then
             managePanTilt Op_PanAntenna position velocity
               (m_currentPan s) (m_goalPan s) (m_panStart s) (clock i) s
           else if joint = antenna_tilt then
             managePanTilt Op_TiltAntenna position velocity
               (m_currentTilt s) (m_goalTilt s) (m_tiltStart s) (clock i) s
           else Inr s) = Inr sm"
      and s1: "Running s1 = Running sm" "threads s1 = threads sm"
        "callbacks_for cid (events s1) = callbacks_for cid (events sm)"
      by (auto simp: joint_states_entry_def and_then_eq_Inr handle_joint_fault_def Let_def emit_def)
    from p have "tracks cid opname0 c0 s sm 0"
      by (auto split: if_splits intro: tracks_refl managePanTilt_tracks [OF _ _ assms(2)])
    moreover have "tracks cid opname0 c0 sm s1 0" by (rule tracks_neutral) (fact s1)+
    ultimately show ?thesis by (rule tracks_add_0)
  qed
qed

lemma for_each_tracks:
  assumes "\<And>x s s1. body x s = Inr s1 \<Longrightarrow> tracks cid opname0 c0 s s1 0"
  shows "for_each body xs s = Inr s' \<Longrightarrow> tracks cid opname0 c0 s s' 0"
proof (induction xs arbitrary: s)
  case Nil
  then show ?case by (simp add: tracks_refl)
next
  case (Cons x xs)
  then obtain sm where a: "body x s = Inr sm" and b: "for_each body xs sm = Inr s'"
    by (auto simp: and_then_eq_Inr)
  from assms [OF a] Cons.IH [OF b] show ?case by (rule tracks_add_0)
qed

lemma jointStatesCallback_tracks:
  "jointStatesCallback msg clock s = Inr s1 \<Longrightarrow> cid \<noteq> IDLE_ID \<Longrightarrow> tracks cid opname0 c0 s s1 0"
  unfolding jointStatesCallback_def
  by (erule for_each_tracks [rotated]) (rule joint_states_entry_tracks)

lemma callbacks_for_fault_log [simp]:
  "callbacks_for cid (fault_log fault_component msg_val e) = 0"
  by (cases e) (simp add: fault_log_def)

lemma fault_entries_fields:
  "fault_entries fault_component msg_val idx (tab, s) = (tab', s') \<Longrightarrow>
   Running s' = Running s \<and> threads s' = threads s \<and>
   callbacks_for cid (events s') = callbacks_for cid (events s)"
proof (induction idx arbitrary: tab s)
  case Nil
  then show ?case by simp
next
  case (Cons i idx)
  obtain k v b where e: "tab ! i = (k, v, b)" by (cases "tab ! i") auto
  from Cons.prems e obtain tab1 where
    "fault_entries fault_component msg_val idx
       (tab1, s\<lparr>events := events s @ fault_log fault_component msg_val (k, v, b)\<rparr>) = (tab', s')"
    by (simp add: checkFaultMessages_eq)
  from Cons.IH [OF this] show ?case by simp
qed

lemma fault_table_update_tracks:
  assumes "fault_table_update fault_component msg_val tab s = (tab', s')"
    and "Running s1 = Running s'" and "threads s1 = threads s'" and "events s1 = events s'"
  shows "tracks cid opname0 c0 s s1 0"
  using fault_entries_fields [OF assms(1) [unfolded fault_table_update_def], of cid] assms(2-4)
  by (intro tracks_neutral) simp_all

lemma fault_messages_tracks:
  "tracks cid opname0 c0 s (systemFaultMessageCallback m64 s) 0"
  "tracks cid opname0 c0 s (armFaultCallback m32 s) 0"
  "tracks cid opname0 c0 s (powerFaultCallback m32 s) 0"
  "tracks cid opname0 c0 s (antennaFaultCallback m32 s) 0"
proof -
  show "tracks cid opname0 c0 s (systemFaultMessageCallback m64 s) 0"
    by (cases "fault_table_update ''SYSTEM'' m64 (systemErrors s) s")
       (auto simp: systemFaultMessageCallback_def intro: fault_table_update_tracks)
  show "tracks cid opname0 c0 s (armFaultCallback m32 s) 0"
    by (cases "fault_table_update ''ARM'' m32 (armErrors s) s")
       (auto simp: armFaultCallback_def intro: fault_table_update_tracks)
  show "tracks cid opname0 c0 s (powerFaultCallback m32 s) 0"
    by (cases "fault_table_update ''POWER'' m32 (powerErrors s) s")
       (auto simp: powerFaultCallback_def intro: fault_table_update_tracks)
  show "tracks cid opname0 c0 s (antennaFaultCallback m32 s) 0"
    by (cases "fault_table_update ''ANTENNA'' m32 (ptErrors s) s")
       (auto simp: antennaFaultCallback_def intro: fault_table_update_tracks)
qed

lemma antenna_callbacks_tracks:
  "tracks cid opname0 c0 s (panCallback set_point s) 0"
  "tracks cid opname0 c0 s (tiltCallback set_point s) 0"
  "tracks cid opname0 c0 s (setCommandStatusCallback s) 0"
  by (rule tracks_neutral; simp add: panCallback_def tiltCallback_def setCommandStatusCallback_def
      Let_def emit_def)+

lemma thread_runs_tracks:
  assumes "step (Thread_runs t fin) s = Inr s1" and "cid \<noteq> IDLE_ID"
  shows "tracks cid opname0 c0 s s1 0"
proof (cases "t \<in> set (threads s)")
  case False
  with assms(1) show ?thesis by (simp add: tracks_refl)
next
  case True
  let ?s0 = "s\<lparr>threads := remove1 t (threads s)\<rparr>"
  from True assms(1) have body: "thread_body t fin ?s0 = Inr s1" by simp
  show ?thesis
    unfolding tracks_def
  proof (intro impI)
    assume con: "consistent s"
    from consistentD [OF con True]
    have r: "Running ?s0 (thread_op t) = Some (thread_id t)" and i: "thread_id t \<noteq> IDLE_ID"
      by simp_all
    from consistent_remove(2) [OF con True]
    have n: "thread_op t \<notin> thread_op ` set (threads ?s0)" by simp
    have rem: "tracks cid op' c0 s ?s0 0" for op' by (rule tracks_remove_thread [OF True])
    have bod: "tracks cid op' c0 ?s0 s1 0" if "thread_op t \<noteq> op'" for op'
      by (rule thread_body_tracks [OF body r i n assms(2) that])
    have all: "tracks cid op' c0 s s1 0" if "thread_op t \<noteq> op'" for op'
      by (rule tracks_add_0 [OF rem bod [OF that]])
    from all [of Op_PanAntenna] con thread_op_not_sampled(1) [of t]
    have a: "consistent s1 \<and> account cid s1 = account cid s + 0" by (simp add: tracks_def)
    have b: "stuck opname0 c0 s1" if st: "stuck opname0 c0 s"
    proof -
      from st True have "thread_op t \<noteq> opname0" by (auto simp: stuck_def)
      from all [OF this] con st show ?thesis by (simp add: tracks_def)
    qed
    from a b show "consistent s1 \<and> account cid s1 = account cid s + 0 \<and>
        (stuck opname0 c0 s \<longrightarrow> stuck opname0 c0 s1)" by simp
  qed
qed

lemma step_tracks:
  assumes "step i s = Inr s1" and "\<not> carries IDLE_ID i" and "cid \<noteq> IDLE_ID"
  shows "tracks cid opname0 c0 s s1 (if admitted_by cid i s then 1 else 0)"
proof (cases i)
  case (Thread_runs t fin)
  with thread_runs_tracks [OF _ assms(3)] assms(1) show ?thesis by (simp add: admitted_by_def)
next
  case (Msg_jointStates msg clock)
  with jointStatesCallback_tracks [OF _ assms(3)] assms(1) show ?thesis by (simp add: admitted_by_def)
next
  case Msg_camera
  with cameraCallback_tracks [OF _ assms(3)] assms(1) show ?thesis by (simp add: admitted_by_def)
next
  case (Call_tiltAntenna degrees v now)
  with tiltAntenna_tracks [OF _ assms(3)] assms(1) show ?thesis by (simp add: admitted_by_def conj_commute)
next
  case (Call_panAntenna degrees v now)
  with panAntenna_tracks [OF _ assms(3)] assms(1) show ?thesis by (simp add: admitted_by_def conj_commute)
next
  case (Call_takePicture v)
  with takePicture_tracks [OF _ assms(3)] assms(1) show ?thesis by (simp add: admitted_by_def conj_commute)
next
  case (Call_guardedMove x y z dir_x dir_y dir_z search_dist v)
  with assms have d: "dispatch Op_GuardedMove v (GuardedMoveAction x y z dir_x dir_y dir_z search_dist v) s = Inr s1" and v: "v \<noteq> IDLE_ID"
    by (simp_all add: guardedMove_def carries_def)
  from dispatch_tracks [OF d _ _ v assms(3), of opname0 c0] Call_guardedMove show ?thesis
    by (simp add: admitted_by_def conj_commute)
next
  case (Call_digLinear x y depth len ground_pos v)
  with assms have d: "dispatch Op_DigLinear v (DigLinearAction x y depth len ground_pos v) s = Inr s1" and v: "v \<noteq> IDLE_ID"
    by (simp_all add: digLinear_def carries_def)
  from dispatch_tracks [OF d _ _ v assms(3), of opname0 c0] Call_digLinear show ?thesis
    by (simp add: admitted_by_def conj_commute)
next
  case (Call_digCircular x y depth ground_pos parallel v)
  with assms have d: "dispatch Op_DigCircular v (DigCircularAction x y depth ground_pos parallel v) s = Inr s1" and v: "v \<noteq> IDLE_ID"
    by (simp_all add: digCircular_def carries_def)
  from dispatch_tracks [OF d _ _ v assms(3), of opname0 c0] Call_digCircular show ?thesis
    by (simp add: admitted_by_def conj_commute)
next
  case (Call_grind x y depth len parallel ground_pos v)
  with assms have d: "dispatch Op_Grind v (GrindAction x y depth len parallel ground_pos v) s = Inr s1" and v: "v \<noteq> IDLE_ID"
    by (simp_all add: grind_def carries_def)
  from dispatch_tracks [OF d _ _ v assms(3), of opname0 c0] Call_grind show ?thesis
    by (simp add: admitted_by_def conj_commute)
next
  case (Call_stow v)
  with assms have d: "dispatch Op_Stow v (StowAction v) s = Inr s1" and v: "v \<noteq> IDLE_ID"
    by (simp_all add: stow_def carries_def)
  from dispatch_tracks [OF d _ _ v assms(3), of opname0 c0] Call_stow show ?thesis
    by (simp add: admitted_by_def conj_commute)
next
  case (Call_unstow v)
  with assms have d: "dispatch Op_Unstow v (UnstowAction v) s = Inr s1" and v: "v \<noteq> IDLE_ID"
    by (simp_all add: unstow_def carries_def)
  from dispatch_tracks [OF d _ _ v assms(3), of opname0 c0] Call_unstow show ?thesis
    by (simp add: admitted_by_def conj_commute)
next
  case (Call_deliver x y z v)
  with assms have d: "dispatch Op_Deliver v (DeliverAction x y z v) s = Inr s1" and v: "v \<noteq> IDLE_ID"
    by (simp_all add: deliver_def carries_def)
  from dispatch_tracks [OF d _ _ v assms(3), of opname0 c0] Call_deliver show ?thesis
    by (simp add: admitted_by_def conj_commute)
qed (use assms in \<open>auto simp: admitted_by_def fault_messages_tracks antenna_callbacks_tracks\<close>)

lemma run_tracks:
  assumes "sentinel_free inputs" and "cid \<noteq> IDLE_ID"
  shows "run inputs s = Inr s' \<Longrightarrow> tracks cid opname0 c0 s s' (admissions cid inputs s)"
  using assms(1)
proof (induction inputs arbitrary: s)
  case Nil
  then show ?case by (simp add: run_def tracks_refl)
next
  case (Cons i inputs)
  from Cons.prems obtain sm where a: "step i s = Inr sm" and b: "run inputs sm = Inr s'"
    by (auto simp: run_def and_then_eq_Inr)
  from Cons.prems have c: "\<not> carries IDLE_ID i" and d: "sentinel_free inputs"
    by (simp_all add: sentinel_free_def)
  from tracks_trans [OF step_tracks [OF a c assms(2)] Cons.IH [OF b d]] a
  show ?case by simp
qed


lemma mark_operation_finished_Running:
  "mark_operation_finished n c s = Inr s1 \<Longrightarrow> Running s1 = (Running s)(n \<mapsto> IDLE_ID)"
proof -
  assume a: "mark_operation_finished n c s = Inr s1"
  from mark_operation_finished_Inr [OF a] obtain r where r: "Running s n = Some r" ..
  from a show ?thesis unfolding mark_operation_finished_eq [OF r] by (auto split: if_splits)
qed

lemma registry_calls_keep:
  "Running s name = Some c \<Longrightarrow> c \<noteq> IDLE_ID \<Longrightarrow> registry_calls calls s = Inr (res, s') \<Longrightarrow>
   \<not> list_ex (completes_name name) calls \<Longrightarrow>
   Running s' name = Some c \<and> length res = length calls \<and>
   (\<forall>i < length calls. admits_name name (calls ! i) \<longrightarrow> res ! i = Some False)"
proof (induction calls arbitrary: s res)
  case Nil
  then show ?case by simp
next
  case (Cons call calls)
  from Cons.prems(4) have nc: "\<not> completes_name name call" "\<not> list_ex (completes_name name) calls"
    by simp_all
  show ?case
  proof (cases call)
    case (Admit n c2)
    with Cons.prems(3) obtain ok s1 res1 where
      a: "mark_operation_running n c2 s = Inr (ok, s1)"
      and b: "registry_calls calls s1 = Inr (res1, s')" and c: "res = Some ok # res1"
      by (auto simp: and_then_eq_Inr)
    from mark_operation_running_keeps [OF Cons.prems(1,2) a]
    have k: "Running s1 name = Some c" and f: "n = name \<longrightarrow> \<not> ok" by simp_all
    from Cons.IH [OF k Cons.prems(2) b nc(2)]
    have ih: "Running s' name = Some c" "length res1 = length calls"
      "\<forall>i<length calls. admits_name name (calls ! i) \<longrightarrow> res1 ! i = Some False" by simp_all
    have "res ! i = Some False" if "i < length (call # calls)" "admits_name name ((call # calls) ! i)" for i
      using that c f ih(3) Admit by (cases i) auto
    with ih(1,2) c show ?thesis by simp
  next
    case (Complete n c2)
    with nc(1) have ne: "n \<noteq> name" by simp
    from Complete Cons.prems(3) obtain s1 res1 where
      a: "mark_operation_finished n c2 s = Inr s1"
      and b: "registry_calls calls s1 = Inr (res1, s')" and c: "res = None # res1"
      by (auto simp: and_then_eq_Inr)
    from mark_operation_finished_Running [OF a] ne Cons.prems(1)
    have k: "Running s1 name = Some c" by simp
    from Cons.IH [OF k Cons.prems(2) b nc(2)]
    have ih: "Running s' name = Some c" "length res1 = length calls"
      "\<forall>i<length calls. admits_name name (calls ! i) \<longrightarrow> res1 ! i = Some False" by simp_all
    have "res ! i = Some False" if "i < length (call # calls)" "admits_name name ((call # calls) ! i)" for i
      using that c ih(3) Complete by (cases i) auto
    with ih(1,2) c show ?thesis by simp
  qed
qed

lemma run_consistent:
  assumes "consistent s" and "sentinel_free inputs" and "run inputs s = Inr s'"
  shows "consistent s'"
proof -
  have "(0::int) \<noteq> IDLE_ID" by (simp add: IDLE_ID_def)
  from run_tracks [OF assms(2) this assms(3), of Op_PanAntenna 0] assms(1)
  show ?thesis by (simp add: tracks_def)
qed

lemma null_client_body:
  "\<not> thread_client t s \<Longrightarrow> thread_body t fin s = Inl (Terminate (emit (null_client_log t) s))"
  by (cases t)
     (simp_all add: guardedMoveAction_def runAction_def digCircularAction_def digLinearAction_def
       deliverAction_def grindAction_def stowAction_def unstowAction_def)

lemma callbacks_for_null_client_log [simp]: "callbacks_for c (null_client_log t # es) = callbacks_for c es"
  by (cases t) simp_all

lemma thread_client_threads [simp]:
  "thread_client t (s\<lparr>threads := ts\<rparr>) = thread_client t s"
  by (cases t) simp_all

lemma consistent_no_threads: "threads s = [] \<Longrightarrow> consistent s"
  by (simp add: consistent_def)

lemma state4_fields:
  "Running state4 = Running state0" "threads state4 = []" "events state4 = []"
  "m_deliverClient state4" "CommandStatusCallback state4"
  by (simp_all add: state4_def state0_def setCommandStatusCallback_def initial_state_def)

lemma state0_null:
  "threads state0 = []" "\<not> m_deliverClient state0"
  by (simp_all add: state0_def setCommandStatusCallback_def initial_state_def)

lemma state5_fields:
  "Running state5 = (Running state0)(Op_Deliver \<mapsto> 7)" "threads state5 = [DeliverAction 1 2 3 7]"
  "events state5 = []" "\<not> m_deliverClient state5" "CommandStatusCallback state5"
  by (simp_all add: state5_def state0_null events_state0 CommandStatusCallback_state0)

lemmas eval_run =
  run_def deliver_def dispatch_def start_thread_def deliverAction_def runAction_def
  mark_operation_running_eq mark_operation_finished_eq Running_state0 LanderOpNames_def
  emit_def Let_def IDLE_ID_def

text \<open>
  Claim C1, \<^verbatim>\<open>mark_operation_running\<close>, as it holds.  For a name of the registry: when
  the entry is not idle the call returns false, logs the warning and changes nothing else;
  when it is idle the call stores the command id in the entry, emits the notification
  \<open>Running = true\<close> and returns true.  If the stored id is not the sentinel
  \<open>IDLE_ID\<close>, then in every sequence of later calls of the two registry functions in
  which no call fails and none is a call of \<^verbatim>\<open>mark_operation_finished\<close> for the name,
  every admission for the name returns false and the entry keeps the id.  And in a run of the interface that does not
  fail, from a state whose threads agree with the registry and with no command that
  carries the sentinel: as long as the thread of an admitted command has not run, that is,
  until the completion of that very command, the entry of its operation holds its id, which
  is not the sentinel, and every admission for the operation is rejected.
\<close>

theorem admit_contract:
  assumes "Running s name = Some r"
  shows "(r \<noteq> IDLE_ID \<longrightarrow>
            mark_operation_running name cid s =
              Inr (False, emit (ROS WARN ''%s already running, ignoring duplicate request.'' [S name]) s))
       \<and> (r = IDLE_ID \<longrightarrow>
            mark_operation_running name cid s =
              Inr (True, emit (PublishOp ''Running'' (B True) name)
                           (s\<lparr>Running := (Running s)(name \<mapsto> cid)\<rparr>)))
       \<and> (r = IDLE_ID \<and> cid \<noteq> IDLE_ID \<and>
            registry_calls (Admit name cid # calls) s = Inr (res, s') \<and>
            \<not> list_ex (completes_name name) calls \<longrightarrow>
            Running s' name = Some cid \<and> hd res = Some True \<and>
            (\<forall>i < length calls. admits_name name (calls ! i) \<longrightarrow> res ! Suc i = Some False))
       \<and> (consistent s0 \<and> sentinel_free inputs \<and> run inputs s0 = Inr s1 \<and> t \<in> set (threads s1) \<longrightarrow>
            Running s1 (thread_op t) = Some (thread_id t) \<and> thread_id t \<noteq> IDLE_ID \<and>
            mark_operation_running (thread_op t) cid' s1 =
              Inr (False, emit (ROS WARN ''%s already running, ignoring duplicate request.''
                                  [S (thread_op t)]) s1))"
proof -
  let ?s1 = "emit (PublishOp ''Running'' (B True) name) (s\<lparr>Running := (Running s)(name \<mapsto> cid)\<rparr>)"
  have busy: "mark_operation_running name cid s =
      Inr (False, emit (ROS WARN ''%s already running, ignoring duplicate request.'' [S name]) s)"
    if "r \<noteq> IDLE_ID"
    using assms that by (simp add: mark_operation_running_eq)
  have idle: "mark_operation_running name cid s = Inr (True, ?s1)" if "r = IDLE_ID"
    using assms that by (simp add: mark_operation_running_eq)
  have later: "Running s' name = Some cid \<and> hd res = Some True \<and>
      (\<forall>i < length calls. admits_name name (calls ! i) \<longrightarrow> res ! Suc i = Some False)"
    if h: "r = IDLE_ID \<and> cid \<noteq> IDLE_ID \<and>
           registry_calls (Admit name cid # calls) s = Inr (res, s') \<and>
           \<not> list_ex (completes_name name) calls"
  proof -
    from h idle obtain res1 where b: "registry_calls calls ?s1 = Inr (res1, s')"
      and c: "res = Some True # res1"
      by (auto simp: and_then_eq_Inr)
    have "Running ?s1 name = Some cid" by simp
    from registry_calls_keep [OF this _ b] h c show ?thesis by simp
  qed
  have flight: "Running s1 (thread_op t) = Some (thread_id t) \<and> thread_id t \<noteq> IDLE_ID \<and>
      mark_operation_running (thread_op t) cid' s1 =
        Inr (False, emit (ROS WARN ''%s already running, ignoring duplicate request.''
                            [S (thread_op t)]) s1)"
    if h: "consistent s0 \<and> sentinel_free inputs \<and> run inputs s0 = Inr s1 \<and> t \<in> set (threads s1)"
  proof -
    from h have "consistent s1" by (auto intro: run_consistent)
    from consistentD [OF this] h
    have a: "Running s1 (thread_op t) = Some (thread_id t)" and b: "thread_id t \<noteq> IDLE_ID"
      by simp_all
    from a b show ?thesis by (simp add: mark_operation_running_eq)
  qed
  from busy idle later flight show ?thesis by blast
qed

text \<open>
  An admission under the sentinel id returns true and leaves the entry idle, so the next
  admission for the same name succeeds with no completion in between.
\<close>

theorem admit_sentinel_counterexample:
  "call_results [Admit Op_DigLinear IDLE_ID, Admit Op_DigLinear 8] state0 = Inr [Some True, Some True]"
  by (simp add: call_results_def Running_state0 LanderOpNames_def mark_operation_running_eq)

theorem admit_contract_witness:
  "Running state0 Op_DigLinear = Some IDLE_ID \<and> (7::int) \<noteq> IDLE_ID \<and>
   \<not> list_ex (completes_name Op_DigLinear)
       [Admit Op_DigLinear 8, Admit Op_Stow 3, Complete Op_Stow 3, Admit Op_DigLinear 9] \<and>
   call_results [Admit Op_DigLinear 7, Admit Op_DigLinear 8, Admit Op_Stow 3, Complete Op_Stow 3,
                 Admit Op_DigLinear 9] state0 =
     Inr [Some True, Some False, Some True, None, Some False] \<and>
   Running state1 Op_DigLinear = Some 7 \<and>
   mark_operation_running Op_DigLinear 8 state1 =
     Inr (False, emit (ROS WARN ''%s already running, ignoring duplicate request.'' [S Op_DigLinear])
                   state1) \<and>
   consistent state4 \<and> sentinel_free [Call_deliver 1 2 3 7] \<and>
   pending_threads (run [Call_deliver 1 2 3 7] state4) = Inr [DeliverAction 1 2 3 7] \<and>
   admit_after [Call_deliver 1 2 3 7] Op_Deliver 8 state4 = Inr False"
proof -
  let ?calls = "[Admit Op_DigLinear 8, Admit Op_Stow 3, Complete Op_Stow 3, Admit Op_DigLinear 9]"
  let ?t = "DeliverAction 1 2 3 7"
  have r: "Running state0 Op_DigLinear = Some IDLE_ID"
    by (simp add: Running_state0 LanderOpNames_def)
  have r1: "Running state1 Op_DigLinear = Some 7" by (simp add: state1_def)
  have i: "(7::int) \<noteq> IDLE_ID" by (simp add: IDLE_ID_def)
  have n: "\<not> list_ex (completes_name Op_DigLinear) ?calls" by simp
  obtain res s' where a: "registry_calls (Admit Op_DigLinear 7 # ?calls) state0 = Inr (res, s')"
    by (simp add: Running_state0 LanderOpNames_def mark_operation_running_eq
        mark_operation_finished_eq CommandStatusCallback_state0 emit_def IDLE_ID_def)
  have c: "consistent state4" by (rule consistent_no_threads) (simp add: state4_fields)
  have f: "sentinel_free [Call_deliver 1 2 3 7]"
    by (simp add: sentinel_free_def carries_def IDLE_ID_def)
  obtain s1 where s1: "run [Call_deliver 1 2 3 7] state4 = Inr s1" and th: "threads s1 = [?t]"
    by (simp add: eval_run state4_fields)
  note t = admit_contract [OF r, of 7 ?calls res s' state4 "[Call_deliver 1 2 3 7]" s1 ?t 8]
  from t i a n have k: "hd res = Some True"
    "\<forall>i < length ?calls. admits_name Op_DigLinear (?calls ! i) \<longrightarrow> res ! Suc i = Some False"
    by blast+
  from k(2) [rule_format, of 0] k(2) [rule_format, of 3]
  have k2: "res ! 1 = Some False" "res ! 4 = Some False" by simp_all
  from a have "length res = 5" "res ! 2 = Some True" "res ! 3 = None"
    by (auto simp: Running_state0 LanderOpNames_def mark_operation_running_eq
        mark_operation_finished_eq CommandStatusCallback_state0 emit_def IDLE_ID_def)
  with k(1) k2 have "res = [Some True, Some False, Some True, None, Some False]"
    by (cases res) (auto simp: nth_Cons' length_Suc_conv numeral_eq_Suc)
  with a have b: "call_results (Admit Op_DigLinear 7 # ?calls) state0 =
      Inr [Some True, Some False, Some True, None, Some False]"
    by (simp add: call_results_def)
  from admit_contract [OF r1, of 8] i
  have d: "mark_operation_running Op_DigLinear 8 state1 =
     Inr (False, emit (ROS WARN ''%s already running, ignoring duplicate request.'' [S Op_DigLinear])
                   state1)"
    by simp
  from t c f s1 th
  have "mark_operation_running (thread_op ?t) 8 s1 =
      Inr (False, emit (ROS WARN ''%s already running, ignoring duplicate request.''
                          [S (thread_op ?t)]) s1)"
    by simp
  with s1 have e: "admit_after [Call_deliver 1 2 3 7] Op_Deliver 8 state4 = Inr False"
    by (simp add: admit_after_def)
  from s1 th have g: "pending_threads (run [Call_deliver 1 2 3 7] state4) = Inr [?t]"
    by (simp add: pending_threads_def)
  from r i n b r1 d c f g e show ?thesis by blast
qed

text \<open>
  Why the commands of the run must not carry the sentinel: a stow under the sentinel and
  then one under id 7 are both admitted; the thread of the first completes and sets the
  entry to idle, so a third stow is admitted while the thread of command 7 has not run.
\<close>

theorem sentinel_command_evaluation:
  "pending_threads
     (run [Call_stow IDLE_ID, Call_stow 7, Thread_runs (StowAction IDLE_ID) True] state6) =
     Inr [StowAction 7] \<and>
   admit_after [Call_stow IDLE_ID, Call_stow 7, Thread_runs (StowAction IDLE_ID) True] Op_Stow 8 state6 =
     Inr True"
  by (simp add: admit_after_def pending_threads_def run_def stow_def dispatch_def start_thread_def
      stowAction_def runAction_def mark_operation_running_eq mark_operation_finished_eq
      Running_state0 LanderOpNames_def emit_def Let_def IDLE_ID_def state6_def state0_null)




text \<open>
  Claim C3, a thread body that finds its action client null.  The body logs the error and
  then the process is ended by \<^verbatim>\<open>std::terminate\<close>, because the function returns with
  its local fault thread still joinable: the call does not return, and a run ends there
  whatever inputs follow.  In the state the process ends in, the registry and the status
  callbacks made are those from before the body ran, so the entry of the operation still
  holds the command id and no status callback has been made for the command.  This is so
  for \<^verbatim>\<open>runAction\<close>, the body of six operations, and for \<^verbatim>\<open>guardedMoveAction\<close>.
\<close>

theorem null_client_aborts:
  assumes "\<not> thread_client t s"
  shows "thread_body t fin s = Inl (Terminate (emit (null_client_log t) s))
       \<and> (t \<in> set (threads s) \<longrightarrow>
            run (Thread_runs t fin # inputs) s =
              Inl (Terminate (emit (null_client_log t) (s\<lparr>threads := remove1 t (threads s)\<rparr>))))
       \<and> runAction opname False g cid fin s =
           Inl (Terminate (emit (ROS ERROR ''%s action client was null!'' [S opname]) s))
       \<and> (\<not> m_guardedMoveClient s \<longrightarrow>
            guardedMoveAction x y z dir_x dir_y dir_z search_dist cid fin s =
              Inl (Terminate (emit (ROS ERROR ''m_guardedMoveClient was null!'' []) s)))
       \<and> Running (emit (null_client_log t) s) = Running s
       \<and> callbacks_for c (events (emit (null_client_log t) s)) = callbacks_for c (events s)"
proof -
  let ?s0 = "s\<lparr>threads := remove1 t (threads s)\<rparr>"
  from assms have "\<not> thread_client t ?s0" by simp
  from null_client_body [OF this, of fin]
  have "run (Thread_runs t fin # inputs) s = Inl (Terminate (emit (null_client_log t) ?s0))"
    if "t \<in> set (threads s)"
    using that by (simp add: run_def)
  moreover have "callbacks_for c (events (emit (null_client_log t) s)) = callbacks_for c (events s)"
    by (simp add: emit_def)
  ultimately show ?thesis
    using null_client_body [OF assms, of fin]
    by (simp add: runAction_def guardedMoveAction_def)
qed

theorem null_client_aborts_witness:
  "DeliverAction 1 2 3 7 \<in> set (threads state5) \<and>
   \<not> thread_client (DeliverAction 1 2 3 7) state5 \<and> \<not> m_guardedMoveClient state5 \<and>
   abort_summary Op_Deliver 7
     (run [Thread_runs (DeliverAction 1 2 3 7) True, Call_deliver 0 0 0 8, Msg_camera] state5) =
     Some ([ROS ERROR ''%s action client was null!'' [S Op_Deliver]], Some 7, 0) \<and>
   abort_summary Op_Deliver 7 (run [Call_deliver 1 2 3 7, Thread_runs (DeliverAction 1 2 3 7) True] state0) =
     Some ([PublishOp ''Running'' (B True) Op_Deliver,
            ROS ERROR ''%s action client was null!'' [S Op_Deliver]], Some 7, 0) \<and>
   abort_summary Op_GuardedMove 7 (guardedMoveAction 1 2 3 0 0 1 5 7 True state5) =
     Some ([ROS ERROR ''m_guardedMoveClient was null!'' []], Some IDLE_ID, 0)"
proof -
  let ?t = "DeliverAction 1 2 3 7"
  have m: "?t \<in> set (threads state5)" by (simp add: state5_fields)
  have n: "\<not> thread_client ?t state5" by (simp add: state5_fields)
  have g: "\<not> m_guardedMoveClient state5"
    by (simp add: state5_def state0_def setCommandStatusCallback_def initial_state_def)
  note t = null_client_aborts [OF n, of True "[Call_deliver 0 0 0 8, Msg_camera]" Op_Deliver
      "DeliverGoal 1 2 3" 7 1 2 3 0 0 1 5]
  from t m have a: "abort_summary Op_Deliver 7
     (run [Thread_runs ?t True, Call_deliver 0 0 0 8, Msg_camera] state5) =
     Some ([ROS ERROR ''%s action client was null!'' [S Op_Deliver]], Some 7, 0)"
    by (simp add: abort_summary_def abort_state_def emit_def state5_fields)
  from t g have b: "abort_summary Op_GuardedMove 7 (guardedMoveAction 1 2 3 0 0 1 5 7 True state5) =
     Some ([ROS ERROR ''m_guardedMoveClient was null!'' []], Some IDLE_ID, 0)"
    by (simp add: abort_summary_def abort_state_def emit_def state5_fields Running_state0
        LanderOpNames_def)
  have c: "abort_summary Op_Deliver 7 (run [Call_deliver 1 2 3 7, Thread_runs ?t True] state0) =
     Some ([PublishOp ''Running'' (B True) Op_Deliver,
            ROS ERROR ''%s action client was null!'' [S Op_Deliver]], Some 7, 0)"
    by (simp add: eval_run state0_null events_state0 abort_summary_def abort_state_def)
  from m n g a b c show ?thesis by blast
qed

end
